theory Spec2Isabelle
  imports Complex_Main "HOL-Library.Sublist" "HOL-Library.Word"
begin

section \<open>Text\<close>

text \<open>
  A Python \<open>str\<close> is a sequence of Unicode code points; it is modelled as a list of
  natural numbers, one per code point.  ASCII literals are written with \<open>ascii\<close>,
  other characters by their code point.
\<close>

type_synonym ustr = "nat list"

definition ascii :: "string \<Rightarrow> ustr" where
  "ascii s = map of_char s"

text \<open>
  The code points for which \<open>str.isspace\<close> holds (Unicode 14, CPython 3.11); they are
  the characters removed by \<open>str.strip()\<close> and matched by \<open>\s\<close>.
\<close>

definition whitespace_points :: "nat list" where
  "whitespace_points =
     [9, 10, 11, 12, 13, 28, 29, 30, 31, 32, 133, 160, 5760,
      8192, 8193, 8194, 8195, 8196, 8197, 8198, 8199, 8200, 8201, 8202,
      8232, 8233, 8239, 8287, 12288]"

definition is_space :: "nat \<Rightarrow> bool" where
  "is_space c = (c \<in> set whitespace_points)"

text \<open>\<open>s.strip()\<close>\<close>

definition strip :: "ustr \<Rightarrow> ustr" where
  "strip s = rev (dropWhile is_space (rev (dropWhile is_space s)))"

text \<open>\<open>normalize_text(value)\<close> is \<open>str(value or "").strip()\<close>; on a string argument
  \<open>value or ""\<close> is the argument itself.\<close>

definition normalize_text :: "ustr \<Rightarrow> ustr" where
  "normalize_text v = strip v"

text \<open>\<open>s.replace(c, new)\<close> for a one-character \<open>c\<close>, the only form the importer uses.\<close>

definition replace_char :: "nat \<Rightarrow> ustr \<Rightarrow> ustr \<Rightarrow> ustr" where
  "replace_char c new s = concat (map (\<lambda>x. if x = c then new else [x]) s)"

text \<open>Lower case for ASCII letters only, as SQLite's \<open>LIKE\<close> and C's \<open>strtod\<close> compare.\<close>

definition fold_ascii :: "nat \<Rightarrow> nat" where
  "fold_ascii c = (if 65 \<le> c \<and> c \<le> 90 then c + 32 else c)"

text \<open>
  \<open>str.lower()\<close>, as far as it matters here: the lowered text is only ever compared with
  ASCII words or matched against ASCII patterns, and the only code points whose lower-case
  form contains an ASCII character that such a comparison accepts are \<open>A\<close>-\<open>Z\<close> and
  U+212A (KELVIN SIGN, lowered to \<open>k\<close>).  Every other code point is left as it is.
\<close>

definition lower_cp :: "nat \<Rightarrow> nat" where
  "lower_cp c = (if 65 \<le> c \<and> c \<le> 90 then c + 32 else if c = 0x212A then 107 else c)"

definition lower :: "ustr \<Rightarrow> ustr" where
  "lower s = map lower_cp s"

text \<open>\<open>sep.join(parts)\<close>\<close>

fun join :: "ustr \<Rightarrow> ustr list \<Rightarrow> ustr" where
  "join sep [] = []"
| "join sep [x] = x"
| "join sep (x # y # ys) = x @ sep @ join sep (y # ys)"

text \<open>Python's \<open>needle in s\<close> on strings is \<^const>\<open>sublist\<close>.\<close>

section \<open>Sheet mode detection\<close>

datatype sheet_mode = Booking | Walkin

definition normalize_header_cell :: "ustr \<Rightarrow> ustr" where
  "normalize_header_cell v =
     replace_char 32 [] (replace_char 13 [] (replace_char 10 [] (normalize_text v)))"

text \<open>The header labels, as code points: visit time (U+5230 U+8BBF U+65F6 U+95F4), visit date
  (U+5230 U+8BBF U+65E5 U+671F), post date (U+89C6 U+9891 U+53D1 U+5E03 U+65E5 U+671F) and
  video link (U+89C6 U+9891 U+94FE U+63A5).\<close>

definition lbl_visit_time :: ustr where
  "lbl_visit_time = [0x5230, 0x8BBF, 0x65F6, 0x95F4]"

definition lbl_visit_date :: ustr where
  "lbl_visit_date = [0x5230, 0x8BBF, 0x65E5, 0x671F]"

definition lbl_post_date :: ustr where
  "lbl_post_date = [0x89C6, 0x9891, 0x53D1, 0x5E03, 0x65E5, 0x671F]"

definition lbl_video_link :: ustr where
  "lbl_video_link = [0x89C6, 0x9891, 0x94FE, 0x63A5]"

definition header_blob :: "ustr list \<Rightarrow> ustr" where
  "header_blob header_row =
     join (ascii '','') (filter (\<lambda>h. h \<noteq> []) (map normalize_header_cell header_row))"

definition detect_sheet_mode :: "ustr list \<Rightarrow> sheet_mode" where
  "detect_sheet_mode header_row =
     (let blob = header_blob header_row in
      if sublist lbl_visit_time blob \<or> sublist lbl_visit_date blob then Booking
      else if sublist lbl_post_date blob \<and> sublist lbl_video_link blob
              \<and> \<not> sublist lbl_visit_time blob then Walkin
      else Booking)"

text \<open>The rule as the specification words it: \<open>walkin\<close> exactly when the blob has a
  visit-date label, no visit-time label, and both a post-date and a video-link label.\<close>

definition spec_detect_sheet_mode :: "ustr list \<Rightarrow> sheet_mode" where
  "spec_detect_sheet_mode header_row =
     (let blob = header_blob header_row in
      if sublist lbl_visit_date blob \<and> \<not> sublist lbl_visit_time blob
         \<and> sublist lbl_post_date blob \<and> sublist lbl_video_link blob then Walkin
      else Booking)"

section \<open>Regular expressions\<close>

text \<open>
  The fragment of Python's \<open>re\<close> that the importer uses: literals, one character of a
  class, greedy repetition of a class (\<open>{m,n}\<close>, \<open>+\<close>), an optional part and capturing
  groups.  \<open>rmatch r s\<close> lists every way of matching \<open>r\<close> at the start of \<open>s\<close>, in the order
  in which the backtracking matcher tries them; each entry holds the captured groups, in the
  order of their opening brackets, and the text left over.
\<close>

datatype rx =
    Lit ustr
  | Chr "nat \<Rightarrow> bool"
  | Many "nat \<Rightarrow> bool" nat "nat option"
  | Seq rx rx
  | Opt rx
  | Grp rx

fun rmatch :: "rx \<Rightarrow> ustr \<Rightarrow> (ustr list \<times> ustr) list" where
  "rmatch (Lit w) s = (if prefix w s then [([], drop (length w) s)] else [])"
| "rmatch (Chr p) s = (case s of [] \<Rightarrow> [] | c # cs \<Rightarrow> if p c then [([], cs)] else [])"
| "rmatch (Many p lo hi) s =
     (let n = length (takeWhile p s);
          m = (case hi of None \<Rightarrow> n | Some h \<Rightarrow> min n h)
      in map (\<lambda>k. ([], drop k s)) (rev [lo..<Suc m]))"
| "rmatch (Seq a b) s =
     concat (map (\<lambda>(g1, r1). map (\<lambda>(g2, r2). (g1 @ g2, r2)) (rmatch b r1)) (rmatch a s))"
| "rmatch (Opt a) s = rmatch a s @ [([], s)]"
| "rmatch (Grp a) s = map (\<lambda>(g, r). (take (length s - length r) s # g, r)) (rmatch a s)"

text \<open>\<open>re.search\<close>: the leftmost position with a match, and there the first match.
  The result is the text before the match, the groups, and the text after the match.\<close>

fun search :: "rx \<Rightarrow> ustr \<Rightarrow> (ustr \<times> ustr list \<times> ustr) option" where
  "search r [] = (case rmatch r [] of [] \<Rightarrow> None | (g, rest) # _ \<Rightarrow> Some ([], g, rest))"
| "search r (c # cs) =
     (case rmatch r (c # cs) of
        (g, rest) # _ \<Rightarrow> Some ([], g, rest)
      | [] \<Rightarrow> map_option (\<lambda>(pre, g, rest). (c # pre, g, rest)) (search r cs))"

declare rmatch.simps [simp del] search.simps [simp del]

text \<open>\<open>re.fullmatch\<close>: the first way of matching that uses up the text.\<close>

definition fullmatch :: "rx \<Rightarrow> ustr \<Rightarrow> ustr list option" where
  "fullmatch r s = map_option fst (find (\<lambda>(g, rest). rest = []) (rmatch r s))"

text \<open>\<open>re.sub(r, "", s, count=1)\<close> for a pattern that matches no empty text.\<close>

definition sub_first :: "rx \<Rightarrow> ustr \<Rightarrow> ustr" where
  "sub_first r s = (case search r s of None \<Rightarrow> s | Some (pre, g, rest) \<Rightarrow> pre @ rest)"

text \<open>
  \<open>\d\<close> matches the decimal digits of Unicode (category Nd), and \<open>int()\<close> reads them.  They
  come in runs of ten, each run holding the digits 0 to 9 in order; the list gives the code
  point of the zero of every run (Unicode 14, CPython 3.11).
\<close>

definition digit_zeros :: "nat list" where
  "digit_zeros =
     [48, 1632, 1776, 1984, 2406, 2534, 2662, 2790, 2918, 3046, 3174, 3302, 3430, 3558,
      3664, 3792, 3872, 4160, 4240, 6112, 6160, 6470, 6608, 6784, 6800, 6992, 7088, 7232,
      7248, 42528, 43216, 43264, 43472, 43504, 43600, 44016, 65296, 66720, 68912, 69734,
      69872, 69942, 70096, 70384, 70736, 70864, 71248, 71360, 71472, 71904, 72016, 72784,
      73040, 73120, 92768, 92864, 93008, 120782, 120792, 120802, 120812, 120822, 123200,
      123632, 125264, 130032]"

definition digit_value :: "nat \<Rightarrow> nat option" where
  "digit_value c = map_option (\<lambda>z. c - z) (find (\<lambda>z. z \<le> c \<and> c < z + 10) digit_zeros)"

definition is_digit :: "nat \<Rightarrow> bool" where
  "is_digit c = (digit_value c \<noteq> None)"

definition ascii_digit :: "nat \<Rightarrow> bool" where
  "ascii_digit c = (48 \<le> c \<and> c \<le> 57)"

text \<open>\<open>int(text)\<close> on a run of decimal digits, the only texts it is applied to.\<close>

definition int_of_digits :: "ustr \<Rightarrow> nat" where
  "int_of_digits s = foldl (\<lambda>acc c. 10 * acc + (case digit_value c of Some d \<Rightarrow> d | None \<Rightarrow> 0)) 0 s"

text \<open>The format specification \<open>{n:0wd}\<close>: decimal, padded with zeros to width \<open>w\<close>, the
  sign counted in the width.\<close>

fun dec_digits :: "nat \<Rightarrow> ustr" where
  "dec_digits n = (if n < 10 then [48 + n] else dec_digits (n div 10) @ [48 + n mod 10])"

declare dec_digits.simps [simp del]

definition zero_pad :: "nat \<Rightarrow> ustr \<Rightarrow> ustr" where
  "zero_pad w ds = replicate (w - length ds) 48 @ ds"

definition fmt_d :: "nat \<Rightarrow> int \<Rightarrow> ustr" where
  "fmt_d w n = (if n < 0 then 45 # zero_pad (w - 1) (dec_digits (nat (- n)))
                else zero_pad w (dec_digits (nat n)))"

section \<open>Date parsers\<close>

text \<open>\<open>f"{y:04d}-{mo:02d}-{d:02d}"\<close>\<close>

definition fmt_date :: "int \<Rightarrow> int \<Rightarrow> int \<Rightarrow> ustr" where
  "fmt_date y mo d = fmt_d 4 y @ [45] @ fmt_d 2 mo @ [45] @ fmt_d 2 d"

text \<open>The glyphs: year U+5E74, month U+6708, day U+65E5, day-of-month suffix U+53F7.\<close>

definition glyph_year :: nat where "glyph_year = 0x5E74"
definition glyph_month :: nat where "glyph_month = 0x6708"
definition glyph_day :: nat where "glyph_day = 0x65E5"
definition glyph_hao :: nat where "glyph_hao = 0x53F7"

definition is_slash_or_dash :: "nat \<Rightarrow> bool" where
  "is_slash_or_dash c = (c = 47 \<or> c = 45)"

text \<open>\<open>(\d{4})[/-](\d{1,2})[/-](\d{1,2})\<close>\<close>

definition rx_ymd :: rx where
  "rx_ymd = Seq (Grp (Many is_digit 4 (Some 4))) (Seq (Chr is_slash_or_dash)
             (Seq (Grp (Many is_digit 1 (Some 2))) (Seq (Chr is_slash_or_dash)
             (Grp (Many is_digit 1 (Some 2))))))"

text \<open>\<open>(\d{1,2})/(\d{1,2})/(\d{4})\<close>\<close>

definition rx_dmy :: rx where
  "rx_dmy = Seq (Grp (Many is_digit 1 (Some 2))) (Seq (Lit [47])
             (Seq (Grp (Many is_digit 1 (Some 2))) (Seq (Lit [47])
             (Grp (Many is_digit 4 (Some 4))))))"

text \<open>\<open>(\d{4})\<close> year glyph \<open>(\d{1,2})\<close> month glyph \<open>(\d{1,2})\<close>\<close>

definition rx_cn_ymd :: rx where
  "rx_cn_ymd = Seq (Grp (Many is_digit 4 (Some 4))) (Seq (Lit [glyph_year])
                (Seq (Grp (Many is_digit 1 (Some 2))) (Seq (Lit [glyph_month])
                (Grp (Many is_digit 1 (Some 2))))))"

text \<open>\<open>(\d{1,2})/(\d{1,2})\<close>\<close>

definition rx_dm :: rx where
  "rx_dm = Seq (Grp (Many is_digit 1 (Some 2))) (Seq (Lit [47]) (Grp (Many is_digit 1 (Some 2))))"

text \<open>\<open>(\d{1,2})\<close> month glyph \<open>(\d{1,2})\<close>\<close>

definition rx_cn_md :: rx where
  "rx_cn_md = Seq (Grp (Many is_digit 1 (Some 2))) (Seq (Lit [glyph_month])
               (Grp (Many is_digit 1 (Some 2))))"

text \<open>The day/month heuristic shared by \<open>to_iso_date\<close> and \<open>parse_day_month_with_year\<close>:
  the result is the pair (month, day).\<close>

definition month_day_of :: "bool \<Rightarrow> nat \<Rightarrow> nat \<Rightarrow> nat \<times> nat" where
  "month_day_of prefer_day_first a b =
     (if a > 12 \<and> b \<le> 12 then (b, a)
      else if b > 12 \<and> a \<le> 12 then (a, b)
      else if prefer_day_first then (b, a)
      else (a, b))"

text \<open>\<open>s.replace(hao, "").replace(day, "")\<close>: both day-suffix glyphs are removed wherever
  they stand.\<close>

definition strip_day_glyphs :: "ustr \<Rightarrow> ustr" where
  "strip_day_glyphs s = replace_char glyph_day [] (replace_char glyph_hao [] s)"

definition to_iso_date :: "bool \<Rightarrow> ustr \<Rightarrow> ustr" where
  "to_iso_date prefer_day_first v =
     (let s0 = normalize_text v in
      if s0 = [] then []
      else let s = strip_day_glyphs s0 in
        case search rx_ymd s of
          Some (_, g, _) \<Rightarrow>
            fmt_date (int (int_of_digits (g ! 0))) (int (int_of_digits (g ! 1)))
              (int (int_of_digits (g ! 2)))
        | None \<Rightarrow>
           (case search rx_dmy s of
              Some (_, g, _) \<Rightarrow>
                (let a = int_of_digits (g ! 0); b = int_of_digits (g ! 1);
                     y = int_of_digits (g ! 2);
                     (mo, d) = month_day_of prefer_day_first a b
                 in fmt_date (int y) (int mo) (int d))
            | None \<Rightarrow>
               (case search rx_cn_ymd s of
                  Some (_, g, _) \<Rightarrow>
                    fmt_date (int (int_of_digits (g ! 0))) (int (int_of_digits (g ! 1)))
                      (int (int_of_digits (g ! 2)))
                | None \<Rightarrow> [])))"

definition parse_day_month_with_year :: "bool \<Rightarrow> int \<Rightarrow> ustr \<Rightarrow> ustr" where
  "parse_day_month_with_year prefer_day_first year v =
     (let s = normalize_text v in
      if s = [] then []
      else case search rx_dm s of
          None \<Rightarrow> []
        | Some (_, g, _) \<Rightarrow>
            (let a = int_of_digits (g ! 0); b = int_of_digits (g ! 1);
                 (mo, d) = month_day_of prefer_day_first a b
             in fmt_date year (int mo) (int d)))"

text \<open>\<open>context_year or fallback_year\<close> on optional integers: \<open>None\<close> and \<open>0\<close> are false.\<close>

definition year_or :: "int option \<Rightarrow> int option \<Rightarrow> int option" where
  "year_or context_year fallback_year =
     (case context_year of
        Some y \<Rightarrow> if y \<noteq> 0 then Some y else fallback_year
      | None \<Rightarrow> fallback_year)"

definition year_true :: "int option \<Rightarrow> bool" where
  "year_true y = (case y of None \<Rightarrow> False | Some n \<Rightarrow> n \<noteq> 0)"

definition parse_post_date :: "int option \<Rightarrow> int option \<Rightarrow> ustr \<Rightarrow> ustr" where
  "parse_post_date context_year fallback_year v =
     (let raw = normalize_text v in
      if raw = [] then []
      else let iso = to_iso_date True raw in
        if iso \<noteq> [] then iso
        else case year_or context_year fallback_year of
            None \<Rightarrow> []
          | Some year \<Rightarrow> if year = 0 then [] else parse_day_month_with_year True year raw)"

definition extract_month_day :: "ustr \<Rightarrow> (nat \<times> nat) option" where
  "extract_month_day text =
     (case search rx_cn_md (normalize_text text) of
        None \<Rightarrow> None
      | Some (_, g, _) \<Rightarrow> Some (int_of_digits (g ! 0), int_of_digits (g ! 1)))"

text \<open>The class \<open>[\s...]\<close> of the leading punctuation that is cut from the window: white
  space, comma, full stop, hyphen, colon, and U+FF0C, U+3002, U+3001, U+2014, U+FF1A.\<close>

definition is_lead_punct :: "nat \<Rightarrow> bool" where
  "is_lead_punct c = (is_space c \<or> c \<in> set [0xFF0C, 44, 0x3002, 46, 0x3001, 45, 0x2014, 58, 0xFF1A])"

text \<open>The tail of \<open>parse_visit_date_and_window\<close> after the four substitutions.\<close>

definition tidy_window :: "ustr \<Rightarrow> ustr" where
  "tidy_window w =
     strip (dropWhile is_lead_punct (strip_day_glyphs w))"

definition strip_dates :: "ustr \<Rightarrow> ustr" where
  "strip_dates raw = sub_first rx_cn_md (sub_first rx_cn_ymd (sub_first rx_dmy (sub_first rx_ymd raw)))"

definition parse_visit_date_and_window :: "int option \<Rightarrow> int option \<Rightarrow> ustr \<Rightarrow> ustr \<times> ustr" where
  "parse_visit_date_and_window context_year fallback_year visit_raw =
     (let raw = normalize_text visit_raw in
      if raw = [] then ([], [])
      else
        let iso0 = to_iso_date True raw;
            iso = (if iso0 \<noteq> [] then iso0
                   else case extract_month_day raw of
                       None \<Rightarrow> iso0
                     | Some (mo, d) \<Rightarrow>
                         (case year_or context_year fallback_year of
                            None \<Rightarrow> iso0
                          | Some year \<Rightarrow> if year = 0 then iso0
                                         else fmt_date year (int mo) (int d)))
        in if iso \<noteq> [] then (iso, tidy_window (strip_dates raw)) else (iso, raw))"

text \<open>
  The window as the specification words it: the text with at most one date-shaped substring
  removed, then tidied.  A substring is date-shaped when one of the four date patterns matches
  all of it; \<open>spec_windows raw\<close> lists every window the specification allows for \<open>raw\<close>.
\<close>

definition date_shaped :: "ustr \<Rightarrow> bool" where
  "date_shaped m = (fullmatch rx_ymd m \<noteq> None \<or> fullmatch rx_dmy m \<noteq> None
                    \<or> fullmatch rx_cn_ymd m \<noteq> None \<or> fullmatch rx_cn_md m \<noteq> None)"

definition one_removed :: "ustr \<Rightarrow> ustr list" where
  "one_removed raw =
     concat (map (\<lambda>i. concat (map (\<lambda>j. if date_shaped (take (j - i) (drop i raw))
                                          then [take i raw @ drop j raw] else [])
                                 [Suc i..<Suc (length raw)]))
               [0..<length raw])"

definition spec_windows :: "ustr \<Rightarrow> ustr list" where
  "spec_windows raw = map tidy_window (raw # one_removed raw)"

text \<open>
  One substitution \<open>re.sub(r, "", s, count=1)\<close> described by what it does: \<open>cut r s t\<close> holds
  when \<open>r\<close> matches nowhere in \<open>s\<close> and \<open>t\<close> is \<open>s\<close>, or when \<open>t\<close> is \<open>s\<close> without the leftmost
  match of \<open>r\<close>.
\<close>

definition cut :: "rx \<Rightarrow> ustr \<Rightarrow> ustr \<Rightarrow> bool" where
  "cut r s t \<longleftrightarrow>
     (t = s \<and> (\<forall>j \<le> length s. rmatch r (drop j s) = []))
     \<or> (\<exists>pre m post g alts. s = pre @ m @ post \<and> t = pre @ post
           \<and> rmatch r (m @ post) = (g, post) # alts
           \<and> (\<forall>j < length pre. rmatch r (drop j s) = []))"

text \<open>
  What \<open>re.search\<close> finds, described by the matcher alone: \<open>matches_first r s g\<close> holds
  when \<open>r\<close> matches somewhere in \<open>s\<close> and the first match at the leftmost such position
  captures the groups \<open>g\<close>; \<open>matches_nowhere r s\<close> holds when \<open>r\<close> matches at no position.
\<close>

definition matches_first :: "rx \<Rightarrow> ustr \<Rightarrow> ustr list \<Rightarrow> bool" where
  "matches_first r s g \<longleftrightarrow>
     (\<exists>pre m post alts. s = pre @ m @ post \<and> rmatch r (m @ post) = (g, post) # alts
         \<and> (\<forall>j < length pre. rmatch r (drop j s) = []))"

definition matches_nowhere :: "rx \<Rightarrow> ustr \<Rightarrow> bool" where
  "matches_nowhere r s \<longleftrightarrow> (\<forall>j \<le> length s. rmatch r (drop j s) = [])"

text \<open>
  \<open>to_iso_date\<close> as the specification words it: the year-first pattern and the \<open>D/M/YYYY\<close>
  pattern are tried on the trimmed text, and the localized pattern on the trimmed text without
  its trailing day-suffix glyphs.
\<close>

definition day_glyph :: "nat \<Rightarrow> bool" where
  "day_glyph c \<longleftrightarrow> c = glyph_day \<or> c = glyph_hao"

definition strip_trailing_day_glyphs :: "ustr \<Rightarrow> ustr" where
  "strip_trailing_day_glyphs s = rev (dropWhile day_glyph (rev s))"

definition spec_to_iso_date :: "bool \<Rightarrow> ustr \<Rightarrow> ustr" where
  "spec_to_iso_date prefer_day_first v =
     (let s = normalize_text v in
      if s = [] then []
      else
        case search rx_ymd s of
          Some (_, g, _) \<Rightarrow>
            fmt_date (int (int_of_digits (g ! 0))) (int (int_of_digits (g ! 1)))
              (int (int_of_digits (g ! 2)))
        | None \<Rightarrow>
           (case search rx_dmy s of
              Some (_, g, _) \<Rightarrow>
                (let (mo, d) = month_day_of prefer_day_first (int_of_digits (g ! 0))
                                 (int_of_digits (g ! 1))
                 in fmt_date (int (int_of_digits (g ! 2))) (int mo) (int d))
            | None \<Rightarrow>
               (case search rx_cn_ymd (strip_trailing_day_glyphs s) of
                  Some (_, g, _) \<Rightarrow>
                    fmt_date (int (int_of_digits (g ! 0))) (int (int_of_digits (g ! 1)))
                      (int (int_of_digits (g ! 2)))
                | None \<Rightarrow> [])))"

section \<open>Handle extraction\<close>

text \<open>\<open>tiktok\.com/@([^/?#]+)\<close>\<close>

definition rx_tiktok :: rx where
  "rx_tiktok = Seq (Lit (ascii ''tiktok.com/@''))
                 (Grp (Many (\<lambda>c. c \<noteq> 47 \<and> c \<noteq> 63 \<and> c \<noteq> 35) 1 None))"

definition parse_tiktok_handle :: "ustr \<Rightarrow> ustr" where
  "parse_tiktok_handle profile_url =
     (let s = normalize_text profile_url in
      if s = [] then []
      else case search rx_tiktok s of
          None \<Rightarrow> []
        | Some (_, g, _) \<Rightarrow>
            (let handle = dropWhile (\<lambda>c. c = 64) (strip (g ! 0))
             in if handle \<noteq> [] then 64 # handle else []))"

section \<open>The store\<close>

text \<open>
  The SQLite database is modelled as three tables, each a list of rows in rowid order.
  A \<open>TEXT\<close> column holds text or \<open>NULL\<close> (\<open>None\<close>); the \<open>id\<close> columns hold text.
  \<open>SELECT ... LIMIT 1\<close> returns the first row of the table, in list order, that satisfies
  the \<open>WHERE\<close> clause; \<open>UPDATE ... WHERE id = ?\<close> rewrites every row with that id.
  An \<open>INTEGER\<close> column holds a signed 64-bit integer or \<open>NULL\<close>; binding a Python integer
  outside that range raises \<open>OverflowError\<close> before the statement runs.  A \<open>REAL\<close> column
  holds a double or \<open>NULL\<close>, and a NaN is stored as \<open>NULL\<close>.

  Modelled from the spec: the schema is not part of the source.  The specification gives the
  columns of the three tables and names \<open>id\<close> their primary key, so an \<open>INSERT\<close> whose id
  is already in the table fails with \<open>IntegrityError\<close>; no other constraint is modelled.
\<close>

datatype pyfloat = Finite rat | PosInf | NegInf | NaN

datatype error = IntegrityError | OverflowError | TypeError

type_synonym sqltext = "ustr option"

record influencer =
  i_id :: ustr
  i_displayName :: sqltext
  i_handle :: sqltext
  i_avatarData :: sqltext
  i_contactMethod :: sqltext
  i_contactInfo :: sqltext
  i_notes :: sqltext
  i_profileLink :: sqltext
  i_createdAt :: sqltext
  i_updatedAt :: sqltext

record booking =
  b_id :: ustr
  b_storeId :: sqltext
  b_storeName :: sqltext
  b_influencerId :: sqltext
  b_creatorName :: sqltext
  b_handle :: sqltext
  b_contactMethod :: sqltext
  b_contactInfo :: sqltext
  b_visitDate :: sqltext
  b_visitWindow :: sqltext
  b_sourceType :: sqltext
  b_serviceDetail :: sqltext
  b_videoRights :: sqltext
  b_postDate :: sqltext
  b_videoLink :: sqltext
  b_budgetMillionVND :: "pyfloat option"
  b_notes :: sqltext
  b_createdAt :: sqltext

record traffic =
  t_id :: ustr
  t_bookingId :: sqltext
  t_influencerId :: sqltext
  t_influencerName :: sqltext
  t_storeName :: sqltext
  t_sourceType :: sqltext
  t_postDate :: sqltext
  t_videoLink :: sqltext
  t_views :: "64 word option"
  t_likes :: "64 word option"
  t_comments :: "64 word option"
  t_saves :: "64 word option"
  t_shares :: "64 word option"
  t_note :: sqltext
  t_capturedAt :: sqltext

record db =
  influencers :: "influencer list"
  bookings :: "booking list"
  traffic_logs :: "traffic list"

text \<open>\<open>value or ""\<close> and \<open>normalize_text(value)\<close> on a column value.\<close>

definition or_empty :: "sqltext \<Rightarrow> ustr" where
  "or_empty v = (case v of None \<Rightarrow> [] | Some s \<Rightarrow> s)"

definition normalize_col :: "sqltext \<Rightarrow> ustr" where
  "normalize_col v = strip (or_empty v)"

text \<open>\<open>int(value or 0)\<close> on an \<open>INTEGER\<close> column.\<close>

definition int_or_zero :: "64 word option \<Rightarrow> int" where
  "int_or_zero v = (case v of None \<Rightarrow> 0 | Some n \<Rightarrow> sint n)"

text \<open>The integers that can be bound to a statement, and the floats as they are stored.\<close>

definition fits_int64 :: "int \<Rightarrow> bool" where
  "fits_int64 n \<longleftrightarrow> - (2 ^ 63) \<le> n \<and> n < 2 ^ 63"

definition stored_real :: "pyfloat \<Rightarrow> pyfloat option" where
  "stored_real x = (if x = NaN then None else Some x)"

text \<open>\<open>generate_id(prefix)\<close> is \<open>f"{prefix}-{secrets.token_hex(3)}"\<close>; the random token is
  an argument of every operation that may draw one.  So is the result of \<open>utc_iso_now()\<close>.\<close>

definition generate_id :: "ustr \<Rightarrow> ustr \<Rightarrow> ustr" where
  "generate_id pfx tok = pfx @ ascii ''-'' @ tok"

section \<open>Floating point\<close>

text \<open>
  A Python float is an IEEE 754 double.  \<open>Finite r\<close> stands for the double whose exact value
  is the rational \<open>r\<close> (the sign of zero is not kept: no operation of the importer reads it).
  \<open>fl q\<close> is the double nearest to \<open>q\<close>, ties to even, with 53 bits above the exponent
  \<open>-1022\<close> and gradual underflow below; a result of \<open>2 ^ 1024\<close> or more is an infinity.
\<close>

fun ilog2 :: "nat \<Rightarrow> nat" where
  "ilog2 n = (if n < 2 then 0 else Suc (ilog2 (n div 2)))"

declare ilog2.simps [simp del]

definition pow2 :: "int \<Rightarrow> rat" where
  "pow2 e = (if 0 \<le> e then 2 ^ nat e else 1 / 2 ^ nat (- e))"

text \<open>For \<open>q > 0\<close>, the integer \<open>e\<close> with \<open>2 ^ e \<le> q < 2 ^ (e + 1)\<close>.\<close>

definition floor_log2 :: "rat \<Rightarrow> int" where
  "floor_log2 q = (if 1 \<le> q then int (ilog2 (nat \<lfloor>q\<rfloor>))
                   else - int (Suc (ilog2 (nat (\<lceil>1 / q\<rceil> - 1)))))"

definition round_half_even :: "rat \<Rightarrow> int" where
  "round_half_even x =
     (let f = \<lfloor>x\<rfloor>; d = x - of_int f
      in if d < 1 / 2 then f else if 1 / 2 < d then f + 1 else if even f then f else f + 1)"

definition fl :: "rat \<Rightarrow> pyfloat" where
  "fl q =
     (if q = 0 then Finite 0
      else let a = \<bar>q\<bar>;
               p = max (floor_log2 a) (- 1022) - 52;
               r = of_int (round_half_even (a / pow2 p)) * pow2 p
           in if pow2 1024 \<le> r then (if 0 < q then PosInf else NegInf)
              else Finite (if 0 < q then r else - r))"

text \<open>\<open>x * c\<close> for a positive constant \<open>c\<close> that is itself a double.\<close>

definition fmul_pos :: "pyfloat \<Rightarrow> rat \<Rightarrow> pyfloat" where
  "fmul_pos x c = (case x of Finite r \<Rightarrow> fl (r * c) | PosInf \<Rightarrow> PosInf
                   | NegInf \<Rightarrow> NegInf | NaN \<Rightarrow> NaN)"

text \<open>
  \<open>float(text)\<close>; \<open>None\<close> stands for \<open>ValueError\<close>.  White space around the text is
  dropped; then comes an optional sign and either \<open>inf\<close>, \<open>infinity\<close> or \<open>nan\<close> in any
  case, or a decimal number: digits with an optional point, at least one digit, and an
  optional exponent.  Digits are the decimal digits of Unicode, and one underscore may stand
  between two digits.
\<close>

fun underscores_ok :: "bool \<Rightarrow> ustr \<Rightarrow> bool" where
  "underscores_ok prev [] = True"
| "underscores_ok prev (c # cs) =
     (if c = 95 then prev \<and> (case cs of [] \<Rightarrow> False | d # _ \<Rightarrow> is_digit d)
                     \<and> underscores_ok False cs
      else underscores_ok (is_digit c) cs)"

definition parse_decimal :: "ustr \<Rightarrow> rat option" where
  "parse_decimal t =
     (let ip = takeWhile is_digit t;
          r1 = dropWhile is_digit t;
          fp = (case r1 of [] \<Rightarrow> [] | c # r \<Rightarrow> if c = 46 then takeWhile is_digit r else []);
          r2 = (case r1 of [] \<Rightarrow> [] | c # r \<Rightarrow> if c = 46 then dropWhile is_digit r else r1)
      in if ip = [] \<and> fp = [] then None
         else let mant = of_nat (int_of_digits (ip @ fp)) / 10 ^ length fp in
           case r2 of
             [] \<Rightarrow> Some mant
           | c # r3 \<Rightarrow>
               if c = 101 \<or> c = 69 then
                 (let neg = (case r3 of [] \<Rightarrow> False | x # _ \<Rightarrow> x = 45);
                      r4 = (case r3 of [] \<Rightarrow> [] | x # r \<Rightarrow> if x = 43 \<or> x = 45 then r else r3)
                  in if r4 \<noteq> [] \<and> list_all is_digit r4
                     then Some (if neg then mant / 10 ^ int_of_digits r4
                                else mant * 10 ^ int_of_digits r4)
                     else None)
               else None)"

definition py_float :: "ustr \<Rightarrow> pyfloat option" where
  "py_float v =
     (let s = strip v;
          neg = (case s of [] \<Rightarrow> False | c # _ \<Rightarrow> c = 45);
          body = (case s of [] \<Rightarrow> [] | c # r \<Rightarrow> if c = 43 \<or> c = 45 then r else s);
          word = map fold_ascii body
      in if word = ascii ''inf'' \<or> word = ascii ''infinity''
         then Some (if neg then NegInf else PosInf)
         else if word = ascii ''nan'' then Some NaN
         else if \<not> underscores_ok False body then None
         else map_option (\<lambda>q. fl (if neg then - q else q))
                (parse_decimal (filter (\<lambda>c. c \<noteq> 95) body)))"

section \<open>Integer metrics\<close>

text \<open>\<open>([0-9]+(?:[.,][0-9]+)?)k\<close>, and the same with \<open>m\<close>.\<close>

definition rx_metric :: "nat \<Rightarrow> rx" where
  "rx_metric suffix_letter =
     Seq (Grp (Seq (Many ascii_digit 1 None)
                 (Opt (Seq (Chr (\<lambda>c. c = 46 \<or> c = 44)) (Many ascii_digit 1 None)))))
       (Lit [suffix_letter])"

text \<open>
  The texts that the group of these patterns matches, in words: a run of ASCII digits,
  optionally followed by a point or a comma and another run of ASCII digits.
\<close>

definition metric_number :: "ustr \<Rightarrow> bool" where
  "metric_number num \<longleftrightarrow>
     (\<exists>ds fs. ds \<noteq> [] \<and> list_all ascii_digit ds
        \<and> (num = ds \<or> (fs \<noteq> [] \<and> list_all ascii_digit fs
                          \<and> (num = ds @ [46] @ fs \<or> num = ds @ [44] @ fs))))"

definition decimal_comma :: "ustr \<Rightarrow> ustr" where
  "decimal_comma num =
     (if 44 \<in> set num \<and> 46 \<notin> set num then replace_char 44 [46] num
      else replace_char 44 [] num)"

text \<open>\<open>int(round(float(num) * factor))\<close> and \<open>int(float(s))\<close> inside
  \<open>try ... except ValueError: return 0\<close>: a text that is no number and a NaN give 0, an
  infinity raises \<open>OverflowError\<close>, which is not caught.\<close>

definition scaled_metric :: "ustr \<Rightarrow> rat \<Rightarrow> error + int" where
  "scaled_metric num factor =
     (case py_float (decimal_comma num) of
        None \<Rightarrow> Inr 0
      | Some f \<Rightarrow>
         (case fmul_pos f factor of
            Finite r \<Rightarrow> Inr (round_half_even r)
          | NaN \<Rightarrow> Inr 0
          | PosInf \<Rightarrow> Inl OverflowError
          | NegInf \<Rightarrow> Inl OverflowError))"

definition plain_metric :: "ustr \<Rightarrow> error + int" where
  "plain_metric s =
     (case py_float s of
        None \<Rightarrow> Inr 0
      | Some f \<Rightarrow>
         (case f of
            Finite r \<Rightarrow> Inr (if 0 \<le> r then \<lfloor>r\<rfloor> else \<lceil>r\<rceil>)
          | NaN \<Rightarrow> Inr 0
          | PosInf \<Rightarrow> Inl OverflowError
          | NegInf \<Rightarrow> Inl OverflowError))"

text \<open>The cell text as the patterns see it: trimmed, without double quotes and spaces.\<close>

definition metric_text :: "ustr \<Rightarrow> ustr" where
  "metric_text raw = replace_char 32 [] (replace_char 34 [] (normalize_text raw))"

definition parse_int_metric :: "ustr \<Rightarrow> error + int" where
  "parse_int_metric raw =
     (let s0 = replace_char 34 [] (normalize_text raw) in
      if s0 = [] then Inr 0
      else let s = replace_char 32 [] s0; low = lower s in
        case fullmatch (rx_metric 107) low of
          Some g \<Rightarrow> scaled_metric (g ! 0) 1000
        | None \<Rightarrow>
           (case fullmatch (rx_metric 109) low of
              Some g \<Rightarrow> scaled_metric (g ! 0) 1000000
            | None \<Rightarrow> plain_metric (replace_char 44 [] s)))"

section \<open>Influencer resolution\<close>

definition normalize_contact_method :: "ustr \<Rightarrow> ustr" where
  "normalize_contact_method raw =
     (let s = normalize_text raw in
      if s = [] then []
      else let s_lower = lower s in
        if s_lower \<in> set [ascii ''zalo'', ascii ''tiktok'', ascii ''ig'', ascii ''instagram'',
                           ascii ''fb'', ascii ''facebook'']
        then (if s_lower = ascii ''instagram'' then ascii ''ig'' else s_lower)
        else s)"

text \<open>\<open>re.fullmatch(r"[0-9\s+()-]{6,}", s)\<close>\<close>

definition is_phone_char :: "nat \<Rightarrow> bool" where
  "is_phone_char c = ((48 \<le> c \<and> c \<le> 57) \<or> is_space c \<or> c = 43 \<or> c = 40 \<or> c = 41 \<or> c = 45)"

definition phone_shaped :: "ustr \<Rightarrow> bool" where
  "phone_shaped s = (6 \<le> length s \<and> list_all is_phone_char s)"

definition find_influencer_by_handle :: "db \<Rightarrow> ustr \<Rightarrow> influencer option" where
  "find_influencer_by_handle conn handle =
     (if handle = [] then None
      else find (\<lambda>r. i_handle r = Some handle) (influencers conn))"

text \<open>The placeholder display name of an influencer without handle (five CJK characters).\<close>

definition unnamed_influencer :: ustr where
  "unnamed_influencer = [0x672A, 0x547D, 0x540D, 0x8FBE, 0x4EBA]"

text \<open>The \<open>updates\<close> dictionary of \<open>create_or_patch_influencer\<close>: one optional entry per
  column that may be patched.\<close>

record influencer_updates =
  iu_displayName :: "ustr option"
  iu_handle :: "ustr option"
  iu_contactMethod :: "ustr option"
  iu_contactInfo :: "ustr option"
  iu_profileLink :: "ustr option"
  iu_notes :: "ustr option"

definition patch_if_empty :: "sqltext \<Rightarrow> ustr \<Rightarrow> ustr option" where
  "patch_if_empty current candidate =
     (if normalize_col current = [] \<and> candidate \<noteq> [] then Some candidate else None)"

definition influencer_updates_empty :: "influencer_updates \<Rightarrow> bool" where
  "influencer_updates_empty u =
     (iu_displayName u = None \<and> iu_handle u = None \<and> iu_contactMethod u = None
      \<and> iu_contactInfo u = None \<and> iu_profileLink u = None \<and> iu_notes u = None)"

definition set_col :: "ustr option \<Rightarrow> sqltext \<Rightarrow> sqltext" where
  "set_col upd current = (case upd of None \<Rightarrow> current | Some v \<Rightarrow> Some v)"

definition apply_influencer_updates :: "influencer_updates \<Rightarrow> ustr \<Rightarrow> influencer \<Rightarrow> influencer" where
  "apply_influencer_updates u now r =
     r\<lparr>i_displayName := set_col (iu_displayName u) (i_displayName r),
       i_handle := set_col (iu_handle u) (i_handle r),
       i_contactMethod := set_col (iu_contactMethod u) (i_contactMethod r),
       i_contactInfo := set_col (iu_contactInfo u) (i_contactInfo r),
       i_profileLink := set_col (iu_profileLink u) (i_profileLink r),
       i_notes := set_col (iu_notes u) (i_notes r),
       i_updatedAt := Some now\<rparr>"

definition create_or_patch_influencer ::
  "ustr \<Rightarrow> ustr \<Rightarrow> db \<Rightarrow> ustr \<Rightarrow> ustr \<Rightarrow> ustr \<Rightarrow> ustr
     \<Rightarrow> error + (db \<times> influencer option \<times> bool \<times> bool)" where
  "create_or_patch_influencer tok now conn handle contact_raw profile_url notes =
     (let existing = find_influencer_by_handle conn handle;
          display_name = (if handle \<noteq> [] then dropWhile (\<lambda>c. c = 64) handle
                          else unnamed_influencer);
          profile_link = normalize_text profile_url;
          notes_text = normalize_text notes;
          contact_method0 = normalize_contact_method contact_raw;
          is_phone = (contact_method0 \<noteq> [] \<and> phone_shaped contact_method0);
          contact_info = (if is_phone then contact_method0 else []);
          contact_method = (if is_phone then [] else contact_method0)
      in case existing of
        Some ex \<Rightarrow>
          let updates = \<lparr>
                iu_displayName = patch_if_empty (i_displayName ex) display_name,
                iu_handle = patch_if_empty (i_handle ex) handle,
                iu_contactMethod = patch_if_empty (i_contactMethod ex) contact_method,
                iu_contactInfo = patch_if_empty (i_contactInfo ex) contact_info,
                iu_profileLink = patch_if_empty (i_profileLink ex) profile_link,
                iu_notes = patch_if_empty (i_notes ex) notes_text\<rparr>
          in if \<not> influencer_updates_empty updates then
               let conn' = conn\<lparr>influencers :=
                     map (\<lambda>r. if i_id r = i_id ex then apply_influencer_updates updates now r else r)
                       (influencers conn)\<rparr>
               in Inr (conn', find (\<lambda>r. i_id r = i_id ex) (influencers conn'), True, False)
             else Inr (conn, Some ex, False, False)
      | None \<Rightarrow>
          let inf_id = generate_id (ascii ''inf'') tok in
          if inf_id \<in> set (map i_id (influencers conn)) then Inl IntegrityError
          else
            let row = \<lparr>i_id = inf_id, i_displayName = Some display_name, i_handle = Some handle,
                       i_avatarData = Some [], i_contactMethod = Some contact_method,
                       i_contactInfo = Some contact_info, i_notes = Some [],
                       i_profileLink = Some profile_link, i_createdAt = Some now,
                       i_updatedAt = Some now\<rparr>;
                row' = (if notes_text \<noteq> [] then row\<lparr>i_notes := Some notes_text\<rparr> else row);
                conn' = conn\<lparr>influencers := influencers conn @ [row']\<rparr>
            in Inr (conn', find (\<lambda>r. i_id r = inf_id) (influencers conn'), False, True))"

text \<open>
  What the merge policy allows for one column: the value is kept, or the column was empty
  (after normalization) and now holds a non-empty text.  \<open>same_profile\<close> compares the six
  columns that a patch may write.
\<close>

definition kept_or_filled :: "sqltext \<Rightarrow> sqltext \<Rightarrow> bool" where
  "kept_or_filled old new \<longleftrightarrow>
     new = old \<or> (normalize_col old = [] \<and> new \<noteq> None \<and> normalize_col new \<noteq> [])"

text \<open>
  The merge of one column in words: the column keeps its value unless it is blank (\<open>NULL\<close>,
  empty or white space only) and the candidate is not empty; then it takes the candidate.
\<close>

definition fill_blank :: "sqltext \<Rightarrow> ustr \<Rightarrow> sqltext" where
  "fill_blank old candidate =
     (if normalize_col old = [] \<and> candidate \<noteq> [] then Some candidate else old)"

definition same_profile :: "influencer \<Rightarrow> influencer \<Rightarrow> bool" where
  "same_profile r r' \<longleftrightarrow>
     i_displayName r' = i_displayName r \<and> i_handle r' = i_handle r
     \<and> i_contactMethod r' = i_contactMethod r \<and> i_contactInfo r' = i_contactInfo r
     \<and> i_profileLink r' = i_profileLink r \<and> i_notes r' = i_notes r"

section \<open>Traffic snapshots\<close>

definition upsert_traffic_for_booking ::
  "ustr \<Rightarrow> ustr \<Rightarrow> db \<Rightarrow> booking \<Rightarrow> int \<Rightarrow> int \<Rightarrow> int \<Rightarrow> int \<Rightarrow> int \<Rightarrow> ustr
     \<Rightarrow> error + (db \<times> bool \<times> bool)" where
  "upsert_traffic_for_booking tok now conn booking_row views likes comments saves shares note =
     (if max views (max likes (max comments (max saves shares))) \<le> 0 then Inr (conn, False, False)
      else case find (\<lambda>t. t_bookingId t = Some (b_id booking_row)) (traffic_logs conn) of
        Some existing \<Rightarrow>
          let next_post_date = normalize_col (b_postDate booking_row);
              next_video_link = normalize_col (b_videoLink booking_row)
          in if int_or_zero (t_views existing) = views
                \<and> int_or_zero (t_likes existing) = likes
                \<and> int_or_zero (t_comments existing) = comments
                \<and> int_or_zero (t_saves existing) = saves
                \<and> int_or_zero (t_shares existing) = shares
                \<and> normalize_col (t_postDate existing) = next_post_date
                \<and> normalize_col (t_videoLink existing) = next_video_link
                \<and> normalize_col (t_note existing) = normalize_text note
             then Inr (conn, False, False)
             else if \<not> list_all fits_int64 [views, likes, comments, saves, shares]
             then Inl OverflowError
             else Inr (conn\<lparr>traffic_logs :=
                    map (\<lambda>t. if t_id t = t_id existing
                              then t\<lparr>t_views := Some (word_of_int views),
                                     t_likes := Some (word_of_int likes),
                                     t_comments := Some (word_of_int comments),
                                     t_saves := Some (word_of_int saves),
                                     t_shares := Some (word_of_int shares),
                                     t_postDate := Some next_post_date,
                                     t_videoLink := Some next_video_link,
                                     t_note := Some note, t_capturedAt := Some now\<rparr>
                              else t)
                      (traffic_logs conn)\<rparr>, False, True)
      | None \<Rightarrow>
          let traffic_id = generate_id (ascii ''traffic'') tok in
          if \<not> list_all fits_int64 [views, likes, comments, saves, shares]
          then Inl OverflowError
          else if traffic_id \<in> set (map t_id (traffic_logs conn)) then Inl IntegrityError
          else Inr (conn\<lparr>traffic_logs := traffic_logs conn @
                 [\<lparr>t_id = traffic_id, t_bookingId = Some (b_id booking_row),
                   t_influencerId = b_influencerId booking_row,
                   t_influencerName = b_creatorName booking_row,
                   t_storeName = b_storeName booking_row,
                   t_sourceType = b_sourceType booking_row,
                   t_postDate = b_postDate booking_row,
                   t_videoLink = b_videoLink booking_row,
                   t_views = Some (word_of_int views), t_likes = Some (word_of_int likes),
                   t_comments = Some (word_of_int comments),
                   t_saves = Some (word_of_int saves), t_shares = Some (word_of_int shares),
                   t_note = Some note, t_capturedAt = Some now\<rparr>]\<rparr>, True, False))"

section \<open>Booking resolution\<close>

text \<open>
  SQLite's \<open>LIKE\<close>: \<open>%\<close> matches any run of characters, \<open>_\<close> any one character, and
  every other pattern character matches itself, ASCII letters without regard to case.
  Both operands are read as NUL-terminated strings, so each ends at its first U+0000.
  (SQLite's bound on the length of a pattern is not modelled.)
\<close>

fun like_match :: "ustr \<Rightarrow> ustr \<Rightarrow> bool" where
  "like_match [] [] = True"
| "like_match [] (c # cs) = False"
| "like_match (p # ps) [] = (p = 37 \<and> like_match ps [])"
| "like_match (p # ps) (c # cs) =
     (if p = 37 then like_match ps (c # cs) \<or> like_match (p # ps) cs
      else (p = 95 \<or> fold_ascii p = fold_ascii c) \<and> like_match ps cs)"

definition upto_nul :: "ustr \<Rightarrow> ustr" where
  "upto_nul s = takeWhile (\<lambda>c. c \<noteq> 0) s"

definition sql_like :: "sqltext \<Rightarrow> ustr \<Rightarrow> bool" where
  "sql_like v pat = (case v of None \<Rightarrow> False | Some s \<Rightarrow> like_match (upto_nul pat) (upto_nul s))"

definition find_booking_by_video_link :: "db \<Rightarrow> ustr \<Rightarrow> booking option" where
  "find_booking_by_video_link conn video_link =
     (let link = normalize_text video_link in
      if link = [] then None
      else find (\<lambda>b. b_videoLink b = Some link) (bookings conn))"

definition build_import_tag :: "ustr \<Rightarrow> ustr" where
  "build_import_tag external_key =
     (let key = normalize_text external_key in
      if key \<noteq> [] then ascii ''[import:'' @ key @ ascii '']'' else [])"

definition find_by_fallback :: "db \<Rightarrow> ustr \<Rightarrow> ustr \<Rightarrow> ustr \<Rightarrow> ustr \<Rightarrow> booking option" where
  "find_by_fallback conn handle post_date store_id source_type =
     (let h = normalize_text handle; p = normalize_text post_date;
          s = normalize_text store_id; t = normalize_text source_type
      in if h \<noteq> [] \<and> s \<noteq> [] \<and> t \<noteq> [] then
           find (\<lambda>b. b_handle b = Some h \<and> b_postDate b = Some p
                     \<and> b_storeId b = Some s \<and> b_sourceType b = Some t) (bookings conn)
         else None)"

definition find_by_external_key :: "db \<Rightarrow> ustr \<Rightarrow> booking option" where
  "find_by_external_key conn ext =
     (let placeholder = ascii ''import:'' @ ext;
          tag = build_import_tag ext
      in find (\<lambda>b. b_videoLink b = Some placeholder
                    \<or> sql_like (b_notes b) (ascii ''%'' @ tag @ ascii ''%'')) (bookings conn))"

definition find_booking ::
  "db \<Rightarrow> ustr \<Rightarrow> ustr \<Rightarrow> ustr \<Rightarrow> ustr \<Rightarrow> ustr \<Rightarrow> ustr \<Rightarrow> booking option" where
  "find_booking conn video_link handle post_date store_id source_type external_key =
     (let link = normalize_text video_link;
          ext = normalize_text external_key;
          by_key = (if ext \<noteq> [] then find_by_external_key conn ext else None)
      in case by_key of
        Some row \<Rightarrow> Some row
      | None \<Rightarrow>
          (let by_link = (if link \<noteq> [] then find_booking_by_video_link conn link else None)
           in case by_link of
             Some row \<Rightarrow> Some row
           | None \<Rightarrow> find_by_fallback conn handle post_date store_id source_type))"

text \<open>
  The resolution as the specification words it: with an external key, a booking whose video
  link is the placeholder or whose notes contain the tag; else an exact match of a non-empty
  video link; else, when the video link is absent, the fallback tuple; else nothing.
\<close>

definition spec_find_booking ::
  "db \<Rightarrow> ustr \<Rightarrow> ustr \<Rightarrow> ustr \<Rightarrow> ustr \<Rightarrow> ustr \<Rightarrow> ustr \<Rightarrow> booking option" where
  "spec_find_booking conn video_link handle post_date store_id source_type external_key =
     (let link = normalize_text video_link;
          ext = normalize_text external_key;
          by_key = (if ext \<noteq> [] then
                      find (\<lambda>b. b_videoLink b = Some (ascii ''import:'' @ ext)
                                \<or> (case b_notes b of None \<Rightarrow> False
                                    | Some n \<Rightarrow> sublist (build_import_tag ext) n))
                        (bookings conn)
                    else None);
          by_link = (if link \<noteq> [] then find (\<lambda>b. b_videoLink b = Some link) (bookings conn)
                     else None);
          by_tuple = (if link = [] then
                        find (\<lambda>b. b_handle b = Some (normalize_text handle)
                                  \<and> b_postDate b = Some (normalize_text post_date)
                                  \<and> b_storeId b = Some (normalize_text store_id)
                                  \<and> b_sourceType b = Some (normalize_text source_type))
                          (bookings conn)
                      else None)
      in case by_key of Some row \<Rightarrow> Some row
         | None \<Rightarrow> (case by_link of Some row \<Rightarrow> Some row | None \<Rightarrow> by_tuple))"

section \<open>Booking merge\<close>

text \<open>The two source types, "scheduled" (U+9884 U+7EA6) and "walk-in" (U+81EA U+6765).\<close>

definition src_scheduled :: ustr where
  "src_scheduled = [0x9884, 0x7EA6]"

definition src_walkin :: ustr where
  "src_walkin = [0x81EA, 0x6765]"

record booking_args =
  a_store_id :: ustr
  a_store_name :: ustr
  a_visit_date :: ustr
  a_visit_window :: ustr
  a_service_detail :: ustr
  a_video_rights :: ustr
  a_post_date :: ustr
  a_video_link :: ustr
  a_budget_wan :: pyfloat
  a_notes :: ustr
  a_source_type :: ustr
  a_external_key :: ustr
  a_allow_update_store :: bool
  a_allow_update_existing :: bool

text \<open>\<open>float(x or 0)\<close>, \<open>x > 0\<close> and \<open>(column or 0) == 0\<close> on floats.\<close>

definition float_or_zero :: "pyfloat \<Rightarrow> pyfloat" where
  "float_or_zero x = (if x = Finite 0 then Finite 0 else x)"

fun float_positive :: "pyfloat \<Rightarrow> bool" where
  "float_positive (Finite r) = (0 < r)"
| "float_positive PosInf = True"
| "float_positive NegInf = False"
| "float_positive NaN = False"

definition budget_unset :: "pyfloat option \<Rightarrow> bool" where
  "budget_unset v = (v = None \<or> v = Some (Finite 0))"

definition effective_source_type :: "ustr \<Rightarrow> ustr" where
  "effective_source_type st =
     (if normalize_text st \<in> {src_scheduled, src_walkin} then normalize_text st
      else src_scheduled)"

definition effective_video_link :: "booking_args \<Rightarrow> ustr" where
  "effective_video_link a =
     (let link = normalize_text (a_video_link a); ext = normalize_text (a_external_key a)
      in if ext \<noteq> [] \<and> link = [] then ascii ''import:'' @ ext else link)"

definition append_tag :: "ustr \<Rightarrow> ustr \<Rightarrow> ustr" where
  "append_tag text tag = (if text \<noteq> [] then strip (text @ [10] @ tag) else tag)"

definition effective_notes :: "booking_args \<Rightarrow> ustr" where
  "effective_notes a =
     (let tag = build_import_tag (normalize_text (a_external_key a));
          n = normalize_text (a_notes a)
      in if tag \<noteq> [] \<and> \<not> sublist tag n then append_tag n tag else n)"

text \<open>The \<open>updates\<close> dictionary of \<open>create_or_update_booking\<close>.\<close>

record booking_updates =
  bu_notes :: "ustr option"
  bu_visitDate :: "ustr option"
  bu_visitWindow :: "ustr option"
  bu_serviceDetail :: "ustr option"
  bu_videoRights :: "ustr option"
  bu_postDate :: "ustr option"
  bu_sourceType :: "ustr option"
  bu_videoLink :: "ustr option"
  bu_budgetMillionVND :: "pyfloat option"

definition booking_updates_empty :: "booking_updates \<Rightarrow> bool" where
  "booking_updates_empty u =
     (bu_notes u = None \<and> bu_visitDate u = None \<and> bu_visitWindow u = None
      \<and> bu_serviceDetail u = None \<and> bu_videoRights u = None \<and> bu_postDate u = None
      \<and> bu_sourceType u = None \<and> bu_videoLink u = None \<and> bu_budgetMillionVND u = None)"

definition booking_updates_for :: "booking_args \<Rightarrow> booking \<Rightarrow> booking_updates" where
  "booking_updates_for a existing =
     (let ext = normalize_text (a_external_key a);
          tag = build_import_tag ext;
          est = effective_source_type (a_source_type a);
          evl = effective_video_link a;
          en = effective_notes a;
          prev_notes = normalize_col (b_notes existing);
          tag_note = (if tag \<noteq> [] \<and> \<not> sublist tag prev_notes
                      then Some (append_tag prev_notes tag) else None)
      in \<lparr>bu_notes = (if prev_notes = [] \<and> en \<noteq> [] then Some en else tag_note),
          bu_visitDate = patch_if_empty (b_visitDate existing) (a_visit_date a),
          bu_visitWindow = patch_if_empty (b_visitWindow existing) (a_visit_window a),
          bu_serviceDetail = patch_if_empty (b_serviceDetail existing)
                               (normalize_text (a_service_detail a)),
          bu_videoRights = patch_if_empty (b_videoRights existing)
                             (normalize_text (a_video_rights a)),
          bu_postDate = patch_if_empty (b_postDate existing) (a_post_date a),
          bu_sourceType = (if est \<noteq> [] \<and> normalize_col (b_sourceType existing) \<noteq> est
                           then Some est else None),
          bu_videoLink = (if evl \<noteq> [] \<and> (normalize_col (b_videoLink existing) = []
                                \<or> prefix (ascii ''import:'') (normalize_col (b_videoLink existing)))
                          then Some evl else None),
          bu_budgetMillionVND =
            (if budget_unset (b_budgetMillionVND existing)
                \<and> float_positive (float_or_zero (a_budget_wan a))
             then Some (float_or_zero (a_budget_wan a)) else None)\<rparr>)"

definition apply_booking_updates :: "booking_updates \<Rightarrow> booking \<Rightarrow> booking" where
  "apply_booking_updates u r =
     r\<lparr>b_notes := set_col (bu_notes u) (b_notes r),
       b_visitDate := set_col (bu_visitDate u) (b_visitDate r),
       b_visitWindow := set_col (bu_visitWindow u) (b_visitWindow r),
       b_serviceDetail := set_col (bu_serviceDetail u) (b_serviceDetail r),
       b_videoRights := set_col (bu_videoRights u) (b_videoRights r),
       b_postDate := set_col (bu_postDate u) (b_postDate r),
       b_sourceType := set_col (bu_sourceType u) (b_sourceType r),
       b_videoLink := set_col (bu_videoLink u) (b_videoLink r),
       b_budgetMillionVND := (case bu_budgetMillionVND u of None \<Rightarrow> b_budgetMillionVND r
                               | Some v \<Rightarrow> Some v)\<rparr>"

definition update_store :: "booking_args \<Rightarrow> booking \<Rightarrow> db \<Rightarrow> db" where
  "update_store a existing conn =
     conn\<lparr>bookings := map (\<lambda>b. if b_id b = b_id existing
                                then b\<lparr>b_storeId := Some (a_store_id a),
                                       b_storeName := Some (a_store_name a)\<rparr>
                                else b) (bookings conn),
          traffic_logs := map (\<lambda>t. if t_bookingId t = Some (b_id existing)
                                    then t\<lparr>t_storeName := Some (a_store_name a)\<rparr>
                                    else t) (traffic_logs conn)\<rparr>"

definition new_booking :: "ustr \<Rightarrow> ustr \<Rightarrow> booking_args \<Rightarrow> influencer \<Rightarrow> booking" where
  "new_booking booking_id now a influencer_row =
     \<lparr>b_id = booking_id, b_storeId = Some (a_store_id a), b_storeName = Some (a_store_name a),
      b_influencerId = Some (i_id influencer_row),
      b_creatorName = i_displayName influencer_row,
      b_handle = Some (or_empty (i_handle influencer_row)),
      b_contactMethod = Some (or_empty (i_contactMethod influencer_row)),
      b_contactInfo = Some (or_empty (i_contactInfo influencer_row)),
      b_visitDate = Some (a_visit_date a), b_visitWindow = Some (a_visit_window a),
      b_sourceType = Some (effective_source_type (a_source_type a)),
      b_serviceDetail = Some (normalize_text (a_service_detail a)),
      b_videoRights = Some (normalize_text (a_video_rights a)),
      b_postDate = Some (a_post_date a),
      b_videoLink = Some (effective_video_link a),
      b_budgetMillionVND = stored_real (float_or_zero (a_budget_wan a)),
      b_notes = Some (effective_notes a),
      b_createdAt = Some now\<rparr>"

definition create_or_update_booking ::
  "ustr \<Rightarrow> ustr \<Rightarrow> db \<Rightarrow> influencer \<Rightarrow> booking_args
     \<Rightarrow> error + (db \<times> booking option \<times> bool \<times> bool)" where
  "create_or_update_booking tok now conn influencer_row a =
     (let existing = find_booking conn (effective_video_link a)
                       (normalize_col (i_handle influencer_row))
                       (normalize_text (a_post_date a)) (a_store_id a)
                       (effective_source_type (a_source_type a))
                       (normalize_text (a_external_key a))
      in case existing of
        Some ex \<Rightarrow>
          let store_differs = (a_allow_update_store a \<and> b_storeId ex \<noteq> Some (a_store_id a));
              conn1 = (if store_differs then update_store a ex conn else conn);
              updates = booking_updates_for a ex;
              fill = (a_allow_update_existing a \<and> \<not> booking_updates_empty updates);
              conn2 = (if fill
                       then conn1\<lparr>bookings :=
                              map (\<lambda>b. if b_id b = b_id ex then apply_booking_updates updates b
                                        else b) (bookings conn1)\<rparr>
                       else conn1)
          in if store_differs \<or> fill
             then Inr (conn2, find (\<lambda>b. b_id b = b_id ex) (bookings conn2), False, True)
             else Inr (conn, Some ex, False, False)
      | None \<Rightarrow>
          let booking_id = generate_id (ascii ''bk'') tok in
          if booking_id \<in> set (map b_id (bookings conn)) then Inl IntegrityError
          else
            let conn' = conn\<lparr>bookings := bookings conn @
                          [new_booking booking_id now a influencer_row]\<rparr>
            in Inr (conn', find (\<lambda>b. b_id b = booking_id) (bookings conn'), True, False))"

section \<open>Sample data\<close>

text \<open>A small store and a walk-in row, used to run the operations on concrete input.\<close>

definition sample_influencer :: influencer where
  "sample_influencer =
     \<lparr>i_id = ascii ''inf-a1b2c3'', i_displayName = Some (ascii ''alice''),
      i_handle = Some (ascii ''@alice''), i_avatarData = Some [],
      i_contactMethod = Some [], i_contactInfo = Some [],
      i_notes = Some (ascii ''likes hotpot''), i_profileLink = Some [],
      i_createdAt = Some (ascii ''2024-01-01T00:00:00Z''),
      i_updatedAt = Some (ascii ''2024-01-01T00:00:00Z'')\<rparr>"

definition sample_booking :: booking where
  "sample_booking =
     \<lparr>b_id = ascii ''bk-0000aa'', b_storeId = Some (ascii ''store-mlzg''),
      b_storeName = Some (ascii ''Main''), b_influencerId = Some (ascii ''inf-a1b2c3''),
      b_creatorName = Some (ascii ''alice''), b_handle = Some (ascii ''@alice''),
      b_contactMethod = Some [], b_contactInfo = Some [],
      b_visitDate = Some [], b_visitWindow = Some [],
      b_sourceType = Some src_walkin, b_serviceDetail = Some [], b_videoRights = Some [],
      b_postDate = Some (ascii ''2023-12-21''),
      b_videoLink = Some (ascii ''import:walkin:0:1''),
      b_budgetMillionVND = Some (Finite 0), b_notes = Some (ascii ''first visit''),
      b_createdAt = Some (ascii ''2024-01-01T00:00:00Z'')\<rparr>"

definition sample_traffic :: traffic where
  "sample_traffic =
     \<lparr>t_id = ascii ''traffic-0000bb'', t_bookingId = Some (ascii ''bk-0000aa''),
      t_influencerId = Some (ascii ''inf-a1b2c3''), t_influencerName = Some (ascii ''alice''),
      t_storeName = Some (ascii ''Main''), t_sourceType = Some src_walkin,
      t_postDate = Some (ascii ''2023-12-21''),
      t_videoLink = Some (ascii ''import:walkin:0:1''),
      t_views = Some 25800, t_likes = Some 120, t_comments = None, t_saves = Some 0,
      t_shares = Some 3, t_note = Some [],
      t_capturedAt = Some (ascii ''2024-01-01T00:00:00Z'')\<rparr>"

definition sample_db :: db where
  "sample_db = \<lparr>influencers = [sample_influencer], bookings = [sample_booking],
                 traffic_logs = [sample_traffic]\<rparr>"

definition sample_args :: "bool \<Rightarrow> bool \<Rightarrow> booking_args" where
  "sample_args upd_store upd_existing =
     \<lparr>a_store_id = ascii ''store-mlzg'', a_store_name = ascii ''Main'',
      a_visit_date = [], a_visit_window = [], a_service_detail = [], a_video_rights = [],
      a_post_date = ascii ''2023-12-21'', a_video_link = [], a_budget_wan = Finite 0,
      a_notes = [], a_source_type = src_walkin, a_external_key = ascii ''walkin:0:1'',
      a_allow_update_store = upd_store, a_allow_update_existing = upd_existing\<rparr>"

text \<open>A visit text with two dates: \<open>1/2/2023 3\<close>, the month glyph, \<open>4\<close>.\<close>

definition visit_sample :: ustr where
  "visit_sample = ascii ''1/2/2023 3'' @ [glyph_month] @ ascii ''4''"

definition sample_url :: ustr where
  "sample_url = ascii ''https://www.tiktok.com/@alice?lang=en''"

text \<open>An influencer whose notes hold one space, and a store with that influencer only.\<close>

definition spaced_influencer :: influencer where
  "spaced_influencer = sample_influencer\<lparr>i_notes := Some (ascii '' ''),
                                          i_profileLink := Some sample_url\<rparr>"

definition spaced_db :: db where
  "spaced_db = \<lparr>influencers = [spaced_influencer], bookings = [], traffic_logs = []\<rparr>"

text \<open>A store whose only booking carries the import tag of another key.\<close>

definition tagged_booking :: booking where
  "tagged_booking = sample_booking\<lparr>b_videoLink := Some (ascii ''https://v.example/1''),
                                   b_notes := Some (ascii ''[import:walkin:1X:7]'')\<rparr>"

definition tagged_db :: db where
  "tagged_db = \<lparr>influencers = [sample_influencer], bookings = [tagged_booking],
                 traffic_logs = []\<rparr>"

definition sample_tok :: ustr where
  "sample_tok = ascii ''0a1b2c''"

definition sample_now :: ustr where
  "sample_now = ascii ''2024-02-02T00:00:00Z''"

section \<open>Properties of sheet mode detection\<close>

lemma sublist_across_separator:
  assumes "sep \<notin> set n"
  shows "sublist n (x @ [sep] @ r) \<longleftrightarrow> sublist n x \<or> sublist n r"
proof
  assume "sublist n (x @ [sep] @ r)"
  then consider "sublist n x" | "sublist n (sep # r)"
    | n1 n2 where "n = n1 @ n2" "prefix n2 (sep # r)" "n2 \<noteq> []"
    by (auto simp: sublist_append) (metis append_Nil2 suffix_imp_sublist)
  then show "sublist n x \<or> sublist n r"
  proof cases
    case 1
    then show ?thesis by simp
  next
    case 2
    then have "prefix n (sep # r) \<or> sublist n r"
      by (simp add: sublist_Cons_right)
    moreover have "\<not> prefix n (sep # r) \<or> n = []"
      using assms by (cases n) (auto simp: prefix_Cons)
    ultimately show ?thesis by auto
  next
    case 3
    then have "sep \<in> set n" by (cases n2) (auto simp: prefix_Cons)
    with assms show ?thesis by simp
  qed
next
  assume "sublist n x \<or> sublist n r"
  then show "sublist n (x @ [sep] @ r)"
    by (auto simp: sublist_append sublist_Cons_right)
qed

lemma sublist_join_iff:
  assumes "sep \<notin> set n" and "n \<noteq> []"
  shows "sublist n (join [sep] cells) \<longleftrightarrow> (\<exists>c \<in> set cells. sublist n c)"
proof (induction cells rule: induct_list012)
  case 1
  from assms(2) show ?case by simp
next
  case (2 x)
  show ?case by simp
next
  case (3 x y zs)
  have "sublist n (join [sep] (x # y # zs))
      \<longleftrightarrow> sublist n x \<or> sublist n (join [sep] (y # zs))"
    using sublist_across_separator[OF assms(1)] by simp
  with 3 show ?case by simp
qed

text \<open>
  C8 (as stated, refuted): on the header row (visit date, post date, video link) the specification's
  rule gives \<open>walkin\<close>, the code returns \<open>booking\<close>, because a visit-date label forces
  \<open>booking\<close> just as a visit-time label does.
\<close>

theorem detect_sheet_mode_spec_counterexample:
  "detect_sheet_mode [lbl_visit_date, lbl_post_date, lbl_video_link] = Booking
   \<and> spec_detect_sheet_mode [lbl_visit_date, lbl_post_date, lbl_video_link] = Walkin"
  by (simp add: detect_sheet_mode_def spec_detect_sheet_mode_def header_blob_def
      normalize_header_cell_def normalize_text_def strip_def is_space_def
      whitespace_points_def replace_char_def ascii_def lbl_visit_date_def
      lbl_post_date_def lbl_video_link_def lbl_visit_time_def sublist_code)

text \<open>
  C8 (amended): \<open>detect_sheet_mode\<close> returns \<open>walkin\<close> exactly when no normalized header
  cell contains a visit-time label or a visit-date label and some cell
  contains the post-date label and some cell contains the video-link label; in every other case, in particular whenever a visit-time or visit-date label
  is present, it returns \<open>booking\<close>.
\<close>

theorem detect_sheet_mode_rule:
  "detect_sheet_mode header_row =
     (if (\<forall>c \<in> set header_row. \<not> sublist lbl_visit_time (normalize_header_cell c)
                              \<and> \<not> sublist lbl_visit_date (normalize_header_cell c))
         \<and> (\<exists>c \<in> set header_row. sublist lbl_post_date (normalize_header_cell c))
         \<and> (\<exists>c \<in> set header_row. sublist lbl_video_link (normalize_header_cell c))
      then Walkin else Booking)"
proof -
  have cells: "sublist n (header_blob header_row)
       \<longleftrightarrow> (\<exists>c \<in> set header_row. sublist n (normalize_header_cell c))"
    if "44 \<notin> set n" "n \<noteq> []" for n
  proof -
    have "sublist n (header_blob header_row)
       \<longleftrightarrow> (\<exists>c \<in> set (filter (\<lambda>h. h \<noteq> []) (map normalize_header_cell header_row)). sublist n c)"
      unfolding header_blob_def ascii_def using sublist_join_iff[OF that] by simp
    also have "\<dots> \<longleftrightarrow> (\<exists>c \<in> set header_row. sublist n (normalize_header_cell c))"
    proof -
      have "c \<noteq> []" if "sublist n c" for c
        using that \<open>n \<noteq> []\<close> by auto
      then show ?thesis by force
    qed
    finally show ?thesis .
  qed
  have "sublist lbl_visit_time (header_blob header_row)
       \<longleftrightarrow> (\<exists>c \<in> set header_row. sublist lbl_visit_time (normalize_header_cell c))"
    by (rule cells) (simp_all add: lbl_visit_time_def)
  moreover have "sublist lbl_visit_date (header_blob header_row)
       \<longleftrightarrow> (\<exists>c \<in> set header_row. sublist lbl_visit_date (normalize_header_cell c))"
    by (rule cells) (simp_all add: lbl_visit_date_def)
  moreover have "sublist lbl_post_date (header_blob header_row)
       \<longleftrightarrow> (\<exists>c \<in> set header_row. sublist lbl_post_date (normalize_header_cell c))"
    by (rule cells) (simp_all add: lbl_post_date_def)
  moreover have "sublist lbl_video_link (header_blob header_row)
       \<longleftrightarrow> (\<exists>c \<in> set header_row. sublist lbl_video_link (normalize_header_cell c))"
    by (rule cells) (simp_all add: lbl_video_link_def)
  ultimately show ?thesis
    unfolding detect_sheet_mode_def Let_def by auto
qed

theorem detect_sheet_mode_rule_witness:
  "detect_sheet_mode [ascii ''ID'', lbl_post_date, lbl_video_link] = Walkin
   \<and> detect_sheet_mode [lbl_visit_time, lbl_post_date, lbl_video_link] = Booking"
proof -
  have norm: "normalize_header_cell (ascii ''ID'') = ascii ''ID''"
    "normalize_header_cell lbl_post_date = lbl_post_date"
    "normalize_header_cell lbl_video_link = lbl_video_link"
    "normalize_header_cell lbl_visit_time = lbl_visit_time"
    by (simp_all add: normalize_header_cell_def normalize_text_def strip_def is_space_def
        whitespace_points_def replace_char_def ascii_def lbl_post_date_def
        lbl_video_link_def lbl_visit_time_def)
  have "detect_sheet_mode [ascii ''ID'', lbl_post_date, lbl_video_link] = Walkin"
    using detect_sheet_mode_rule [of "[ascii ''ID'', lbl_post_date, lbl_video_link]"]
    by (simp add: norm)
      (simp add: ascii_def lbl_post_date_def lbl_video_link_def lbl_visit_time_def
        lbl_visit_date_def sublist_code)
  moreover have "detect_sheet_mode [lbl_visit_time, lbl_post_date, lbl_video_link] = Booking"
    using detect_sheet_mode_rule [of "[lbl_visit_time, lbl_post_date, lbl_video_link]"]
    by (simp add: norm)
  ultimately show ?thesis by simp
qed

section \<open>Facts about text normalization\<close>

lemma strip_fixed:
  assumes "s \<noteq> []" "\<not> is_space (hd s)" "\<not> is_space (last s)"
  shows "strip s = s"
proof -
  have "dropWhile is_space s = s"
    using assms by (cases s) auto
  moreover have "dropWhile is_space (rev s) = rev s"
    using assms by (cases "rev s") (auto simp: hd_rev)
  ultimately show ?thesis by (simp add: strip_def)
qed

lemma strip_ends:
  assumes "strip s \<noteq> []"
  shows "\<not> is_space (hd (strip s)) \<and> \<not> is_space (last (strip s))"
proof -
  let ?a = "dropWhile is_space s"
  let ?b = "dropWhile is_space (rev ?a)"
  from assms have b: "?b \<noteq> []" by (simp add: strip_def)
  then have a: "?a \<noteq> []" by (cases "?a = []") simp_all
  have hb: "\<not> is_space (hd ?b)" using b by (rule hd_dropWhile)
  have ha: "\<not> is_space (hd ?a)" using a by (rule hd_dropWhile)
  have "last (rev ?b) = hd ?b" using b by (simp add: last_rev)
  moreover have "hd (rev ?b) = hd ?a"
  proof -
    have "rev ?a = takeWhile is_space (rev ?a) @ ?b" by simp
    then have "?a = rev ?b @ rev (takeWhile is_space (rev ?a))"
      by (metis rev_append rev_rev_ident)
    with b show ?thesis by (metis hd_append2 rev_is_Nil_conv)
  qed
  ultimately show ?thesis using ha hb by (simp add: strip_def)
qed

lemma strip_Nil: "strip [] = []"
  by (simp add: strip_def)

lemma strip_strip: "strip (strip s) = strip s"
proof (cases "strip s = []")
  case True
  then show ?thesis by (simp add: strip_Nil)
next
  case False
  then show ?thesis using strip_ends[OF False] by (simp add: strip_fixed)
qed

lemma build_import_tag_shape:
  "build_import_tag k \<noteq> [] \<Longrightarrow> hd (build_import_tag k) = 91 \<and> last (build_import_tag k) = 93"
  by (simp add: build_import_tag_def Let_def ascii_def split: if_splits)

lemma is_space_brackets: "\<not> is_space 91" "\<not> is_space 93" "\<not> is_space 64"
  by (simp_all add: is_space_def whitespace_points_def)

lemma append_tag_normalized:
  assumes "tag \<noteq> []" "\<not> is_space (hd tag)" "\<not> is_space (last tag)"
  shows "append_tag (strip x) tag = (if strip x = [] then tag else strip x @ [10] @ tag)"
proof (cases "strip x = []")
  case True
  then show ?thesis by (simp add: append_tag_def)
next
  case False
  then have "\<not> is_space (hd (strip x))" using strip_ends by blast
  with False assms have "strip (strip x @ [10] @ tag) = strip x @ [10] @ tag"
    by (intro strip_fixed) auto
  with False show ?thesis by (simp add: append_tag_def)
qed

section \<open>Properties of the booking merge\<close>

lemma find_map_id:
  "ex \<in> set xs \<Longrightarrow> (\<And>r. key (f r) = key r)
   \<Longrightarrow> (\<And>r. r \<in> set xs \<Longrightarrow> key r = key ex \<Longrightarrow> P (f r))
   \<Longrightarrow> \<exists>r. find (\<lambda>b. key b = key ex) (map (\<lambda>b. if key b = key ex then f b else b) xs) = Some r
             \<and> key r = key ex \<and> P r"
proof (induction xs)
  case Nil
  then show ?case by simp
next
  case (Cons x xs)
  show ?case
  proof (cases "key x = key ex")
    case True
    then show ?thesis using Cons.prems(2,3) by simp
  next
    case False
    with Cons.prems(1) have "ex \<in> set xs" by auto
    from Cons.IH[OF this Cons.prems(2)] Cons.prems(3) False show ?thesis by simp
  qed
qed

lemma sublist_after: "sublist t (x @ c # t)"
  using sublist_append_leftI[of t "x @ [c]"] by simp

lemma find_booking_mem:
  "find_booking conn vl h p s t k = Some ex \<Longrightarrow> ex \<in> set (bookings conn)"
  by (auto simp: find_booking_def find_by_external_key_def find_booking_by_video_link_def
      find_by_fallback_def Let_def find_Some_iff split: option.splits if_splits)

lemma effective_notes_has_tag:
  assumes "build_import_tag (normalize_text (a_external_key a)) \<noteq> []"
  shows "sublist (build_import_tag (normalize_text (a_external_key a))) (effective_notes a)"
proof -
  let ?tag = "build_import_tag (normalize_text (a_external_key a))"
  have sh: "\<not> is_space (hd ?tag)" "\<not> is_space (last ?tag)"
    using build_import_tag_shape[OF assms] is_space_brackets by simp_all
  show ?thesis
    using assms append_tag_normalized[OF assms sh, of "a_notes a"]
    by (auto simp: effective_notes_def normalize_text_def Let_def sublist_after)
qed

text \<open>
  C4 (amended): for every existing booking matched with a supplied external key whose notes
  do not already contain the tag, \<open>create_or_update_booking\<close> appends the tag to the
  notes only when the "fill empty fields" flag is set.  Then the notes column of the matched
  booking in the store holds the previous notes, a newline and the tag (or the incoming notes
  with the tag, when there were no previous notes), the returned row is that booking as the
  store now has it, no booking is added or removed, bookings with another id and all
  influencers are as before, and the row is reported as an update, also when nothing else
  changes.  Without that flag no booking's notes change, and with neither update flag the
  row is a no-op duplicate and the store is left as it was.
\<close>

theorem import_tag_gated_by_flag:
  assumes found: "find_booking conn (effective_video_link a) (normalize_col (i_handle infl))
                    (normalize_text (a_post_date a)) (a_store_id a)
                    (effective_source_type (a_source_type a))
                    (normalize_text (a_external_key a)) = Some ex"
    and ext: "normalize_text (a_external_key a) \<noteq> []"
    and untagged: "\<not> sublist (build_import_tag (normalize_text (a_external_key a)))
                      (normalize_col (b_notes ex))"
  shows "(a_allow_update_existing a \<longrightarrow>
            (\<exists>conn' r. create_or_update_booking tok now conn infl a = Inr (conn', Some r, False, True)
               \<and> b_id r = b_id ex
               \<and> b_notes r = Some (if normalize_col (b_notes ex) = [] then effective_notes a
                                    else normalize_col (b_notes ex) @ [10]
                                         @ build_import_tag (normalize_text (a_external_key a)))
               \<and> sublist (build_import_tag (normalize_text (a_external_key a)))
                    (or_empty (b_notes r))
               \<and> find (\<lambda>b. b_id b = b_id ex) (bookings conn') = Some r
               \<and> map b_id (bookings conn') = map b_id (bookings conn)
               \<and> map b_notes (bookings conn')
                   = map (\<lambda>b. if b_id b = b_id ex
                              then Some (if normalize_col (b_notes ex) = [] then effective_notes a
                                         else normalize_col (b_notes ex) @ [10]
                                              @ build_import_tag (normalize_text (a_external_key a)))
                              else b_notes b) (bookings conn)
               \<and> (\<forall>i < length (bookings conn).
                     b_id (bookings conn ! i) \<noteq> b_id ex \<longrightarrow> bookings conn' ! i = bookings conn ! i)
               \<and> influencers conn' = influencers conn))
       \<and> (\<not> a_allow_update_existing a \<longrightarrow>
            (\<exists>conn' r u. create_or_update_booking tok now conn infl a = Inr (conn', r, False, u)
               \<and> map b_notes (bookings conn') = map b_notes (bookings conn)
               \<and> (\<not> a_allow_update_store a \<longrightarrow> conn' = conn \<and> r = Some ex \<and> \<not> u)))"
proof -
  let ?tag = "build_import_tag (normalize_text (a_external_key a))"
  let ?prev = "normalize_col (b_notes ex)"
  let ?new = "if ?prev = [] then effective_notes a else ?prev @ [10] @ ?tag"
  let ?u = "booking_updates_for a ex"
  have tag: "?tag \<noteq> []"
    using ext by (simp add: build_import_tag_def Let_def strip_strip normalize_text_def ascii_def)
  have sh: "\<not> is_space (hd ?tag)" "\<not> is_space (last ?tag)"
    using build_import_tag_shape[OF tag] is_space_brackets by simp_all
  have en: "sublist ?tag (effective_notes a)"
    using effective_notes_has_tag[OF tag] .
  then have en_ne: "effective_notes a \<noteq> []" using tag by auto
  have notes_upd: "bu_notes ?u = Some ?new"
    using tag untagged en_ne append_tag_normalized[OF tag sh, of "or_empty (b_notes ex)"]
    by (simp add: booking_updates_for_def Let_def strip_strip normalize_text_def normalize_col_def)
  have new_tag: "sublist ?tag ?new"
    using en by (auto simp: sublist_after)
  have mem: "ex \<in> set (bookings conn)" using found by (rule find_booking_mem)
  have A: "\<exists>conn' r. create_or_update_booking tok now conn infl a = Inr (conn', Some r, False, True)
               \<and> b_id r = b_id ex \<and> b_notes r = Some ?new \<and> sublist ?tag (or_empty (b_notes r))
               \<and> find (\<lambda>b. b_id b = b_id ex) (bookings conn') = Some r
               \<and> map b_id (bookings conn') = map b_id (bookings conn)
               \<and> map b_notes (bookings conn')
                   = map (\<lambda>b. if b_id b = b_id ex then Some ?new else b_notes b) (bookings conn)
               \<and> (\<forall>i < length (bookings conn).
                     b_id (bookings conn ! i) \<noteq> b_id ex \<longrightarrow> bookings conn' ! i = bookings conn ! i)
               \<and> influencers conn' = influencers conn"
    if flag: "a_allow_update_existing a"
  proof -
    let ?conn1 = "if a_allow_update_store a \<and> b_storeId ex \<noteq> Some (a_store_id a)
                  then update_store a ex conn else conn"
    let ?conn2 = "?conn1\<lparr>bookings :=
                    map (\<lambda>b. if b_id b = b_id ex then apply_booking_updates ?u b else b)
                      (bookings ?conn1)\<rparr>"
    have ne: "\<not> booking_updates_empty ?u"
      using notes_upd by (auto simp: booking_updates_empty_def)
    have ids1: "map b_id (bookings ?conn1) = map b_id (bookings conn)"
      by (auto simp: update_store_def)
    then have "b_id ex \<in> set (map b_id (bookings ?conn1))"
      using mem by simp
    then obtain e1 where e1: "e1 \<in> set (bookings ?conn1)" "b_id e1 = b_id ex" by auto
    have "\<exists>r. find (\<lambda>b. b_id b = b_id e1)
                 (map (\<lambda>b. if b_id b = b_id e1 then apply_booking_updates ?u b else b)
                    (bookings ?conn1)) = Some r
             \<and> b_id r = b_id e1 \<and> b_notes r = Some ?new"
      by (rule find_map_id[OF e1(1)])
        (simp_all add: apply_booking_updates_def notes_upd set_col_def)
    then obtain r where r: "find (\<lambda>b. b_id b = b_id ex) (bookings ?conn2) = Some r"
        "b_id r = b_id ex" "b_notes r = Some ?new"
      using e1(2) by auto
    have res: "create_or_update_booking tok now conn infl a = Inr (?conn2, Some r, False, True)"
      using found flag ne r(1)
      by (simp add: create_or_update_booking_def Let_def)
    have ids: "map b_id (bookings ?conn2) = map b_id (bookings conn)"
      by (auto simp: update_store_def apply_booking_updates_def)
    have nts: "map b_notes (bookings ?conn2)
        = map (\<lambda>b. if b_id b = b_id ex then Some ?new else b_notes b) (bookings conn)"
      using notes_upd
      by (auto simp: update_store_def apply_booking_updates_def set_col_def)
    have others: "\<forall>i < length (bookings conn).
        b_id (bookings conn ! i) \<noteq> b_id ex \<longrightarrow> bookings ?conn2 ! i = bookings conn ! i"
      by (auto simp: update_store_def)
    have infs: "influencers ?conn2 = influencers conn"
      by (auto simp: update_store_def)
    show ?thesis
      using res r(2,3) new_tag r(1) ids nts others infs
      by (intro exI[of _ ?conn2] exI[of _ r]) (simp add: or_empty_def)
  qed
  have B: "\<exists>conn' r u. create_or_update_booking tok now conn infl a = Inr (conn', r, False, u)
               \<and> map b_notes (bookings conn') = map b_notes (bookings conn)
               \<and> (\<not> a_allow_update_store a \<longrightarrow> conn' = conn \<and> r = Some ex \<and> \<not> u)"
    if flag: "\<not> a_allow_update_existing a"
    using found flag
    by (auto simp: create_or_update_booking_def Let_def update_store_def o_def)
  from A B show ?thesis by blast
qed

lemmas sample_defs = sample_db_def sample_booking_def sample_influencer_def sample_traffic_def
  sample_args_def sample_tok_def sample_now_def src_walkin_def src_scheduled_def

lemmas text_defs = normalize_text_def normalize_col_def or_empty_def strip_def is_space_def
  whitespace_points_def ascii_def

lemma sample_found:
  "find_booking sample_db (effective_video_link (sample_args us ue))
     (normalize_col (i_handle sample_influencer))
     (normalize_text (a_post_date (sample_args us ue))) (a_store_id (sample_args us ue))
     (effective_source_type (a_source_type (sample_args us ue)))
     (normalize_text (a_external_key (sample_args us ue))) = Some sample_booking"
  by (simp add: find_booking_def find_by_external_key_def effective_video_link_def
      effective_source_type_def build_import_tag_def sql_like_def Let_def sample_defs text_defs)

lemma sample_ext: "normalize_text (a_external_key (sample_args us ue)) = ascii ''walkin:0:1''"
  by (simp add: sample_defs text_defs)

lemma sample_untagged:
  "\<not> sublist (build_import_tag (ascii ''walkin:0:1'')) (normalize_col (b_notes sample_booking))"
  by (simp add: build_import_tag_def Let_def sample_defs text_defs sublist_code)

text \<open>
  C4 (as stated, refuted): the sample booking is matched through the external key
  \<open>walkin:0:1\<close>, its notes do not contain the tag, and with the "fill empty fields" flag
  off the call changes nothing and reports a no-op: the tag is not appended.
\<close>

theorem import_tag_flag_off_counterexample:
  "find_booking sample_db (effective_video_link (sample_args False False))
     (normalize_col (i_handle sample_influencer))
     (normalize_text (a_post_date (sample_args False False)))
     (a_store_id (sample_args False False))
     (effective_source_type (a_source_type (sample_args False False)))
     (normalize_text (a_external_key (sample_args False False))) = Some sample_booking
   \<and> normalize_text (a_external_key (sample_args False False)) = ascii ''walkin:0:1''
   \<and> \<not> sublist (build_import_tag (ascii ''walkin:0:1'')) (normalize_col (b_notes sample_booking))
   \<and> create_or_update_booking sample_tok sample_now sample_db sample_influencer
        (sample_args False False) = Inr (sample_db, Some sample_booking, False, False)"
  using sample_found[of False False] sample_ext[of False False] sample_untagged
  by (simp add: create_or_update_booking_def Let_def) (simp add: sample_args_def)

theorem import_tag_gated_by_flag_witness:
  "(\<exists>conn' r. create_or_update_booking sample_tok sample_now sample_db sample_influencer
        (sample_args False True) = Inr (conn', Some r, False, True)
      \<and> b_notes r = Some (ascii ''first visit'' @ [10] @ ascii ''[import:walkin:0:1]'')
      \<and> map b_notes (bookings conn')
           = [Some (ascii ''first visit'' @ [10] @ ascii ''[import:walkin:0:1]'')]
      \<and> find (\<lambda>b. b_id b = b_id sample_booking) (bookings conn') = Some r)
   \<and> create_or_update_booking sample_tok sample_now sample_db sample_influencer
        (sample_args False False) = Inr (sample_db, Some sample_booking, False, False)"
proof -
  have tag: "build_import_tag (ascii ''walkin:0:1'') = ascii ''[import:walkin:0:1]''"
    by (simp add: build_import_tag_def Let_def text_defs)
  have prev: "normalize_col (b_notes sample_booking) = ascii ''first visit''"
    by (simp add: sample_defs text_defs)
  have on: "a_allow_update_existing (sample_args False True)"
    and off: "\<not> a_allow_update_existing (sample_args False False)"
            "\<not> a_allow_update_store (sample_args False False)"
    by (simp_all add: sample_args_def)
  have ne: "ascii ''first visit'' \<noteq> []" "ascii ''walkin:0:1'' \<noteq> []"
    by (simp_all add: ascii_def)
  have bs: "bookings sample_db = [sample_booking]"
    by (simp add: sample_db_def)
  from import_tag_gated_by_flag[OF sample_found[of False True],
      of sample_tok sample_now] sample_untagged on ne
  have 1: "\<exists>conn' r. create_or_update_booking sample_tok sample_now sample_db sample_influencer
        (sample_args False True) = Inr (conn', Some r, False, True)
      \<and> b_notes r = Some (ascii ''first visit'' @ [10] @ ascii ''[import:walkin:0:1]'')
      \<and> map b_notes (bookings conn')
           = [Some (ascii ''first visit'' @ [10] @ ascii ''[import:walkin:0:1]'')]
      \<and> find (\<lambda>b. b_id b = b_id sample_booking) (bookings conn') = Some r"
    unfolding sample_ext tag prev bs by auto
  from import_tag_gated_by_flag[OF sample_found[of False False],
      of sample_tok sample_now] sample_untagged off ne
  have 2: "create_or_update_booking sample_tok sample_now sample_db sample_influencer
        (sample_args False False) = Inr (sample_db, Some sample_booking, False, False)"
    unfolding sample_ext tag prev by auto
  from 1 2 show ?thesis by blast
qed

section \<open>Properties of the traffic merge\<close>

lemma distinct_map_eq:
  "distinct (map f xs) \<Longrightarrow> x \<in> set xs \<Longrightarrow> y \<in> set xs \<Longrightarrow> f x = f y \<Longrightarrow> x = y"
  by (meson distinct_map inj_on_def)

lemma fits_int_or_zero: "fits_int64 (int_or_zero v)"
  using sint_ge[where 'a=64] sint_lt[where 'a=64]
  by (cases v) (simp_all add: int_or_zero_def fits_int64_def)

lemma sint_fits: "fits_int64 n \<Longrightarrow> sint (word_of_int n :: 64 word) = n"
  by (simp add: fits_int64_def int_word_sint)

lemma upsert_traffic_other_rows:
  assumes d: "distinct (map t_id (traffic_logs conn))"
    and i: "i < length (traffic_logs conn)"
    and s: "s = traffic_logs conn ! i"
    and bk: "t_bookingId s = Some (b_id bk)"
    and eq: "int_or_zero (t_views s) = views"
       "int_or_zero (t_likes s) = likes"
       "int_or_zero (t_comments s) = comments"
       "int_or_zero (t_saves s) = saves"
       "int_or_zero (t_shares s) = shares"
       "normalize_col (t_postDate s) = normalize_col (b_postDate bk)"
       "normalize_col (t_videoLink s) = normalize_col (b_videoLink bk)"
       "normalize_col (t_note s) = normalize_text note"
  shows "\<exists>conn' u. upsert_traffic_for_booking tok now conn bk views likes comments saves shares note
            = Inr (conn', False, u) \<and> traffic_logs conn' ! i = s"
proof -
  have mem: "s \<in> set (traffic_logs conn)" using i s by simp
  show ?thesis
  proof (cases "find (\<lambda>t. t_bookingId t = Some (b_id bk)) (traffic_logs conn)")
    case None
    with mem bk show ?thesis by (auto simp: find_None_iff)
  next
    case (Some e)
    then have e: "e \<in> set (traffic_logs conn)"
      by (auto simp: find_Some_iff)
    have "t_id s = t_id e \<Longrightarrow> s = e"
      using distinct_map_eq[OF d mem e] by simp
    moreover have "list_all fits_int64 [views, likes, comments, saves, shares]"
      using fits_int_or_zero[of "t_views s"] fits_int_or_zero[of "t_likes s"]
        fits_int_or_zero[of "t_comments s"] fits_int_or_zero[of "t_saves s"]
        fits_int_or_zero[of "t_shares s"] eq(1-5) by simp
    ultimately show ?thesis
      using Some eq i s
      by (auto simp: upsert_traffic_for_booking_def Let_def split: if_splits)
  qed
qed

text \<open>
  C5: if all five metrics are zero, \<open>upsert_traffic_for_booking\<close> leaves the store as it
  is and reports neither a create nor an update.  If the booking's snapshot (the first row
  of \<open>traffic_logs\<close> for the booking id) agrees with the incoming values in the five metrics,
  the post date, the video link and the note, the store is left as it is, capture timestamp
  included, and nothing is reported.  More generally, under the primary-key constraint any
  snapshot of the booking that agrees with the incoming values is left unchanged and no
  snapshot is created.
\<close>

theorem upsert_traffic_noop:
  "(views = 0 \<and> likes = 0 \<and> comments = 0 \<and> saves = 0 \<and> shares = 0 \<longrightarrow>
      upsert_traffic_for_booking tok now conn bk views likes comments saves shares note
        = Inr (conn, False, False))
   \<and> (find (\<lambda>t. t_bookingId t = Some (b_id bk)) (traffic_logs conn) = Some existing
       \<and> int_or_zero (t_views existing) = views
       \<and> int_or_zero (t_likes existing) = likes
       \<and> int_or_zero (t_comments existing) = comments
       \<and> int_or_zero (t_saves existing) = saves
       \<and> int_or_zero (t_shares existing) = shares
       \<and> normalize_col (t_postDate existing) = normalize_col (b_postDate bk)
       \<and> normalize_col (t_videoLink existing) = normalize_col (b_videoLink bk)
       \<and> normalize_col (t_note existing) = normalize_text note \<longrightarrow>
      upsert_traffic_for_booking tok now conn bk views likes comments saves shares note
        = Inr (conn, False, False))
   \<and> (distinct (map t_id (traffic_logs conn)) \<and> i < length (traffic_logs conn)
       \<and> t_bookingId (traffic_logs conn ! i) = Some (b_id bk)
       \<and> int_or_zero (t_views (traffic_logs conn ! i)) = views
       \<and> int_or_zero (t_likes (traffic_logs conn ! i)) = likes
       \<and> int_or_zero (t_comments (traffic_logs conn ! i)) = comments
       \<and> int_or_zero (t_saves (traffic_logs conn ! i)) = saves
       \<and> int_or_zero (t_shares (traffic_logs conn ! i)) = shares
       \<and> normalize_col (t_postDate (traffic_logs conn ! i)) = normalize_col (b_postDate bk)
       \<and> normalize_col (t_videoLink (traffic_logs conn ! i)) = normalize_col (b_videoLink bk)
       \<and> normalize_col (t_note (traffic_logs conn ! i)) = normalize_text note \<longrightarrow>
      (\<exists>conn' u. upsert_traffic_for_booking tok now conn bk views likes comments saves shares note
            = Inr (conn', False, u) \<and> traffic_logs conn' ! i = traffic_logs conn ! i))"
proof (intro conjI impI)
  assume "views = 0 \<and> likes = 0 \<and> comments = 0 \<and> saves = 0 \<and> shares = 0"
  then show "upsert_traffic_for_booking tok now conn bk views likes comments saves shares note
        = Inr (conn, False, False)"
    by (simp add: upsert_traffic_for_booking_def)
next
  assume "find (\<lambda>t. t_bookingId t = Some (b_id bk)) (traffic_logs conn) = Some existing
       \<and> int_or_zero (t_views existing) = views
       \<and> int_or_zero (t_likes existing) = likes
       \<and> int_or_zero (t_comments existing) = comments
       \<and> int_or_zero (t_saves existing) = saves
       \<and> int_or_zero (t_shares existing) = shares
       \<and> normalize_col (t_postDate existing) = normalize_col (b_postDate bk)
       \<and> normalize_col (t_videoLink existing) = normalize_col (b_videoLink bk)
       \<and> normalize_col (t_note existing) = normalize_text note"
  then show "upsert_traffic_for_booking tok now conn bk views likes comments saves shares note
        = Inr (conn, False, False)"
    by (simp add: upsert_traffic_for_booking_def Let_def)
next
  assume "distinct (map t_id (traffic_logs conn)) \<and> i < length (traffic_logs conn)
       \<and> t_bookingId (traffic_logs conn ! i) = Some (b_id bk)
       \<and> int_or_zero (t_views (traffic_logs conn ! i)) = views
       \<and> int_or_zero (t_likes (traffic_logs conn ! i)) = likes
       \<and> int_or_zero (t_comments (traffic_logs conn ! i)) = comments
       \<and> int_or_zero (t_saves (traffic_logs conn ! i)) = saves
       \<and> int_or_zero (t_shares (traffic_logs conn ! i)) = shares
       \<and> normalize_col (t_postDate (traffic_logs conn ! i)) = normalize_col (b_postDate bk)
       \<and> normalize_col (t_videoLink (traffic_logs conn ! i)) = normalize_col (b_videoLink bk)
       \<and> normalize_col (t_note (traffic_logs conn ! i)) = normalize_text note"
  then show "\<exists>conn' u. upsert_traffic_for_booking tok now conn bk views likes comments saves shares note
            = Inr (conn', False, u) \<and> traffic_logs conn' ! i = traffic_logs conn ! i"
    using upsert_traffic_other_rows[of conn i "traffic_logs conn ! i" bk views likes comments
        saves shares "note" tok now] by blast
qed

theorem upsert_traffic_noop_witness:
  "upsert_traffic_for_booking sample_tok sample_now sample_db sample_booking 0 0 0 0 0 []
     = Inr (sample_db, False, False)
   \<and> upsert_traffic_for_booking sample_tok sample_now sample_db sample_booking 25800 120 0 0 3 []
     = Inr (sample_db, False, False)
   \<and> (\<exists>conn' u. upsert_traffic_for_booking sample_tok sample_now sample_db sample_booking
                    25800 120 0 0 3 [] = Inr (conn', False, u)
         \<and> traffic_logs conn' ! 0 = sample_traffic)"
proof -
  have f: "find (\<lambda>t. t_bookingId t = Some (b_id sample_booking)) (traffic_logs sample_db)
             = Some sample_traffic"
    by (simp add: sample_defs ascii_def)
  have nth: "traffic_logs sample_db ! 0 = sample_traffic" "0 < length (traffic_logs sample_db)"
    "distinct (map t_id (traffic_logs sample_db))"
    by (simp_all add: sample_db_def)
  have eqs: "t_bookingId sample_traffic = Some (b_id sample_booking)"
    "int_or_zero (t_views sample_traffic) = 25800"
    "int_or_zero (t_likes sample_traffic) = 120"
    "int_or_zero (t_comments sample_traffic) = 0"
    "int_or_zero (t_saves sample_traffic) = 0"
    "int_or_zero (t_shares sample_traffic) = 3"
    "normalize_col (t_postDate sample_traffic) = normalize_col (b_postDate sample_booking)"
    "normalize_col (t_videoLink sample_traffic) = normalize_col (b_videoLink sample_booking)"
    "normalize_col (t_note sample_traffic) = normalize_text []"
    by (simp_all add: sample_defs int_or_zero_def text_defs)
  have "upsert_traffic_for_booking sample_tok sample_now sample_db sample_booking 0 0 0 0 0 []
     = Inr (sample_db, False, False)"
    using upsert_traffic_noop[of 0 0 0 0 0 sample_tok sample_now sample_db sample_booking "[]"]
    by simp
  moreover have "upsert_traffic_for_booking sample_tok sample_now sample_db sample_booking
       25800 120 0 0 3 [] = Inr (sample_db, False, False)"
    using upsert_traffic_noop[of 25800 120 0 0 3 sample_tok sample_now sample_db sample_booking
        "[]" sample_traffic] f eqs by simp
  moreover have "\<exists>conn' u. upsert_traffic_for_booking sample_tok sample_now sample_db sample_booking
                    25800 120 0 0 3 [] = Inr (conn', False, u)
         \<and> traffic_logs conn' ! 0 = sample_traffic"
    using upsert_traffic_noop[of 25800 120 0 0 3 sample_tok sample_now sample_db sample_booking
        "[]" _ 0] nth eqs by simp
  ultimately show ?thesis by blast
qed

section \<open>Evaluating the parsers\<close>

lemma dec_digits_small: "n < 10 \<Longrightarrow> dec_digits n = [48 + n]"
  by (simp add: dec_digits.simps)

lemma dec_digits_big: "10 \<le> n \<Longrightarrow> dec_digits n = dec_digits (n div 10) @ [48 + n mod 10]"
  by (subst dec_digits.simps) simp

lemma digit_value_low:
  "c < 1632 \<Longrightarrow> digit_value c = (if 48 \<le> c \<and> c \<le> 57 then Some (c - 48) else None)"
  by (simp add: digit_value_def digit_zeros_def)

lemma is_digit_low: "c < 1632 \<Longrightarrow> is_digit c = (48 \<le> c \<and> c \<le> 57)"
  by (simp add: is_digit_def digit_value_low)

lemma is_digit_glyphs:
  "\<not> is_digit 0x5E74" "\<not> is_digit 0x6708" "\<not> is_digit 0x65E5" "\<not> is_digit 0x53F7"
  by (simp_all add: is_digit_def digit_value_def digit_zeros_def)

lemma is_space_low:
  "c < 133 \<Longrightarrow> is_space c = ((9 \<le> c \<and> c \<le> 13) \<or> (28 \<le> c \<and> c \<le> 32))"
  by (auto simp: is_space_def whitespace_points_def)

lemma is_space_glyphs:
  "\<not> is_space 0x5E74" "\<not> is_space 0x6708" "\<not> is_space 0x65E5" "\<not> is_space 0x53F7"
  by (simp_all add: is_space_def whitespace_points_def)

lemma is_space_high: "12288 < c \<Longrightarrow> \<not> is_space c"
  by (auto simp: is_space_def whitespace_points_def)

lemmas rx_eval = rmatch.simps search.simps fullmatch_def sub_first_def

lemmas rx_defs = rx_ymd_def rx_dmy_def rx_cn_ymd_def rx_dm_def rx_cn_md_def
  is_slash_or_dash_def glyph_year_def glyph_month_def glyph_day_def glyph_hao_def rx_eval

lemmas eval_text = normalize_text_def normalize_col_def or_empty_def strip_def ascii_def
  is_space_low is_space_high is_space_glyphs replace_char_def strip_day_glyphs_def

lemmas eval_digits = is_digit_low is_digit_glyphs digit_value_low int_of_digits_def
  fmt_date_def fmt_d_def zero_pad_def dec_digits_small dec_digits_big

lemma dec_digits_snoc:
  "d < 10 \<Longrightarrow> dec_digits (10 * v + d) = (if v = 0 then [48 + d] else dec_digits v @ [48 + d])"
  by (cases "v = 0") (simp_all add: dec_digits_small dec_digits_big)

lemma int_of_digits_snoc:
  "int_of_digits (ds @ [c]) = 10 * int_of_digits ds + (case digit_value c of Some d \<Rightarrow> d | None \<Rightarrow> 0)"
  by (simp add: int_of_digits_def)

lemma ascii_digit_offset:
  assumes "ascii_digit c"
  obtains d where "c = 48 + d" "d < 10" "digit_value c = Some d"
proof -
  from assms have c: "48 \<le> c" "c \<le> 57" by (simp_all add: ascii_digit_def)
  then have "c = 48 + (c - 48)" "c - 48 < 10" by arith+
  moreover have "digit_value c = Some (c - 48)"
    using c by (simp add: digit_value_low)
  ultimately show thesis by (rule that)
qed

lemma int_of_digits_zero:
  "list_all ascii_digit ds \<Longrightarrow> int_of_digits ds = 0 \<Longrightarrow> ds = replicate (length ds) 48"
proof (induction ds rule: rev_induct)
  case Nil
  then show ?case by simp
next
  case (snoc c ds)
  then have cd: "ascii_digit c" and ds: "list_all ascii_digit ds" by simp_all
  from cd obtain d where d: "c = 48 + d" "d < 10" "digit_value c = Some d"
    by (rule ascii_digit_offset)
  with snoc.prems have z: "int_of_digits ds = 0" "d = 0"
    by (simp_all add: int_of_digits_snoc)
  with snoc.IH ds have "ds = replicate (length ds) 48" by simp
  then have "ds @ [c] = replicate (length ds) 48 @ [48]"
    using z d by simp
  also have "\<dots> = replicate (length (ds @ [c])) 48"
    by (simp add: replicate_append_same)
  finally show ?case .
qed

lemma digits_roundtrip:
  "list_all ascii_digit ds \<Longrightarrow> ds \<noteq> []
   \<Longrightarrow> zero_pad (length ds) (dec_digits (int_of_digits ds)) = ds"
proof (induction ds rule: rev_induct)
  case Nil
  then show ?case by simp
next
  case (snoc c ds)
  then have cd: "ascii_digit c" and ds: "list_all ascii_digit ds" by simp_all
  from cd obtain d where d: "c = 48 + d" "d < 10" "digit_value c = Some d"
    by (rule ascii_digit_offset)
  have v: "int_of_digits (ds @ [c]) = 10 * int_of_digits ds + d"
    using d by (simp add: int_of_digits_snoc)
  show ?case
  proof (cases "int_of_digits ds = 0")
    case True
    then have "ds = replicate (length ds) 48" using ds by (rule int_of_digits_zero[rotated])
    then have r: "replicate (length ds) 48 @ [c] = ds @ [c]" by simp
    have "dec_digits (int_of_digits (ds @ [c])) = [c]"
      using True v d by (simp add: dec_digits_small)
    then show ?thesis using r by (simp add: zero_pad_def)
  next
    case False
    then have ne: "ds \<noteq> []" by (auto simp: int_of_digits_def)
    have ih: "zero_pad (length ds) (dec_digits (int_of_digits ds)) = ds"
      using snoc.IH[OF ds ne] .
    have "dec_digits (int_of_digits (ds @ [c])) = dec_digits (int_of_digits ds) @ [c]"
      using False d unfolding v by (subst dec_digits_snoc) simp_all
    then have "zero_pad (length (ds @ [c])) (dec_digits (int_of_digits (ds @ [c])))
        = zero_pad (length ds) (dec_digits (int_of_digits ds)) @ [c]"
      by (simp add: zero_pad_def)
    with ih show ?thesis by simp
  qed
qed

lemma fmt_d_digits:
  "list_all ascii_digit ds \<Longrightarrow> ds \<noteq> [] \<Longrightarrow> fmt_d (length ds) (int (int_of_digits ds)) = ds"
  by (simp add: fmt_d_def digits_roundtrip)

lemma fmt_d_one_digit:
  assumes "ascii_digit c"
  shows "fmt_d 2 (int (int_of_digits [c])) = [48, c]"
proof -
  from assms obtain d where d: "c = 48 + d" "d < 10"
    by (auto simp: ascii_digit_def intro: that[of "c - 48"])
  then have "int_of_digits [c] = d"
    by (simp add: int_of_digits_def digit_value_low)
  with d show ?thesis
    by (simp add: fmt_d_def zero_pad_def dec_digits_small)
qed

section \<open>Facts about matching\<close>

lemma rmatch_suffix:
  "(g, post) \<in> set (rmatch r t) \<Longrightarrow> suffix post t"
proof (induction r arbitrary: t g post)
  case (Lit w)
  then show ?case by (auto simp: rmatch.simps suffix_drop split: if_splits)
next
  case (Chr p)
  then show ?case by (auto simp: rmatch.simps suffix_Cons split: list.splits if_splits)
next
  case (Many p lo hi)
  then show ?case by (auto simp: rmatch.simps Let_def suffix_drop)
next
  case (Seq a b)
  from Seq.prems obtain g1 r1 g2 where "(g1, r1) \<in> set (rmatch a t)" "(g2, post) \<in> set (rmatch b r1)"
    by (auto simp: rmatch.simps)
  then have "suffix r1 t" "suffix post r1" using Seq.IH by blast+
  then show ?case by (rule suffix_order.trans[rotated])
next
  case (Opt a)
  then show ?case by (auto simp: rmatch.simps)
next
  case (Grp a)
  then show ?case by (auto simp: rmatch.simps)
qed

lemma search_Some:
  assumes "search r s = Some (pre, g, post)"
  shows "\<exists>m alts. s = pre @ m @ post \<and> rmatch r (m @ post) = (g, post) # alts
           \<and> (\<forall>j < length pre. rmatch r (drop j s) = [])"
  using assms
proof (induction s arbitrary: pre)
  case Nil
  then obtain alts where a: "rmatch r [] = (g, post) # alts" "pre = []"
    by (auto simp: search.simps split: list.splits)
  then have "suffix post []" using rmatch_suffix[of g post r "[]"] by simp
  with a show ?case by simp
next
  case (Cons c cs)
  show ?case
  proof (cases "rmatch r (c # cs)")
    case Nil
    with Cons.prems obtain pre' where p: "search r cs = Some (pre', g, post)" "pre = c # pre'"
      by (auto simp: search.simps)
    from Cons.IH[OF p(1)] obtain m alts where
      m: "cs = pre' @ m @ post" "rmatch r (m @ post) = (g, post) # alts"
         "\<forall>j < length pre'. rmatch r (drop j cs) = []" by blast
    have "\<forall>j < length pre. rmatch r (drop j (c # cs)) = []"
    proof (intro allI impI)
      fix j assume "j < length pre"
      then show "rmatch r (drop j (c # cs)) = []"
        using Nil m(3) p(2) by (cases j) auto
    qed
    with m p show ?thesis by auto
  next
    case (Cons a alts)
    with Cons.prems have a: "a = (g, post)" "pre = []"
      by (auto simp: search.simps split: prod.splits)
    with Cons have "suffix post (c # cs)" using rmatch_suffix[of g post r "c # cs"] by simp
    then obtain m where "c # cs = m @ post" by (auto simp: suffix_def)
    with a Cons show ?thesis by auto
  qed
qed

lemma search_None:
  "search r s = None \<longleftrightarrow> (\<forall>j \<le> length s. rmatch r (drop j s) = [])"
proof (induction s)
  case Nil
  then show ?case by (auto simp: search.simps split: list.splits)
next
  case (Cons c cs)
  have "(\<forall>j \<le> length (c # cs). rmatch r (drop j (c # cs)) = [])
      \<longleftrightarrow> rmatch r (c # cs) = [] \<and> (\<forall>j \<le> length cs. rmatch r (drop j cs) = [])"
    (is "?L \<longleftrightarrow> ?R")
  proof
    assume l: ?L
    then have "rmatch r (drop 0 (c # cs)) = []" by blast
    moreover have "rmatch r (drop j cs) = []" if "j \<le> length cs" for j
      using l[rule_format, of "Suc j"] that by simp
    ultimately show ?R by simp
  next
    assume r: ?R
    show ?L
    proof (intro allI impI)
      fix j assume "j \<le> length (c # cs)"
      then show "rmatch r (drop j (c # cs)) = []" using r by (cases j) auto
    qed
  qed
  with Cons show ?case by (auto simp: search.simps split: list.splits)
qed

lemma search_leftmost:
  "rmatch r (m @ post) = (g, post) # alts
   \<Longrightarrow> (\<forall>j < length pre. rmatch r (drop j (pre @ m @ post)) = [])
   \<Longrightarrow> search r (pre @ m @ post) = Some (pre, g, post)"
proof (induction pre)
  case Nil
  then show ?case by (cases "m @ post") (simp_all add: search.simps)
next
  case (Cons c pre)
  from Cons.prems(2)[rule_format, of 0] have 0: "rmatch r (c # pre @ m @ post) = []" by simp
  have "\<forall>j < length pre. rmatch r (drop j (pre @ m @ post)) = []"
  proof (intro allI impI)
    fix j assume "j < length pre"
    then show "rmatch r (drop j (pre @ m @ post)) = []"
      using Cons.prems(2)[rule_format, of "Suc j"] by simp
  qed
  from Cons.IH[OF Cons.prems(1) this] 0 show ?case
    by (simp add: search.simps)
qed

lemma matches_first_search:
  assumes "matches_first r s g"
  shows "\<exists>pre post. search r s = Some (pre, g, post)"
proof -
  from assms obtain pre m post alts where a: "s = pre @ m @ post"
    "rmatch r (m @ post) = (g, post) # alts" "\<forall>j < length pre. rmatch r (drop j s) = []"
    unfolding matches_first_def by blast
  from search_leftmost[OF a(2) a(3)[unfolded a(1)]] show ?thesis
    unfolding a(1) by (intro exI)
qed

lemma search_matches_first:
  assumes "search r s = Some (pre, g, post)"
  shows "matches_first r s g"
proof -
  from search_Some[OF assms] obtain m alts where "s = pre @ m @ post"
    "rmatch r (m @ post) = (g, post) # alts" "\<forall>j < length pre. rmatch r (drop j s) = []"
    by blast
  then show ?thesis unfolding matches_first_def by (intro exI conjI)
qed

lemma matches_nowhere_search: "matches_nowhere r s \<longleftrightarrow> search r s = None"
  by (simp add: matches_nowhere_def search_None)

section \<open>Properties of the date parsers\<close>

lemma ascii_digit_facts:
  assumes "ascii_digit c"
  shows "is_digit c" "\<not> is_space c" "c \<noteq> glyph_day" "c \<noteq> glyph_hao" "c \<noteq> 47" "c \<noteq> 45"
    "c \<noteq> glyph_year" "c \<noteq> glyph_month"
  using assms
  by (simp_all add: ascii_digit_def is_digit_low is_space_low glyph_day_def glyph_hao_def
      glyph_year_def glyph_month_def)

lemma not_digit_seps: "\<not> is_digit 47" "\<not> is_digit 45" "\<not> is_digit glyph_year" "\<not> is_digit glyph_month"
  by (simp_all add: is_digit_low is_digit_glyphs glyph_year_def glyph_month_def)

lemma to_iso_date_ymd_family:
  assumes "list_all ascii_digit [y1, y2, y3, y4, m1, m2, d1, d2]"
  shows "to_iso_date p [y1, y2, y3, y4, 47, m1, m2, 47, d1, d2]
           = [y1, y2, y3, y4, 45, m1, m2, 45, d1, d2]"
proof -
  from assms have dg: "ascii_digit y1" "ascii_digit y2" "ascii_digit y3" "ascii_digit y4"
    "ascii_digit m1" "ascii_digit m2" "ascii_digit d1" "ascii_digit d2"
    by simp_all
  let ?s = "[y1, y2, y3, y4, 47, m1, m2, 47, d1, d2]"
  have n: "normalize_text ?s = ?s"
    unfolding normalize_text_def using dg by (intro strip_fixed) (simp_all add: ascii_digit_facts)
  have r: "strip_day_glyphs ?s = ?s"
    using dg by (simp add: strip_day_glyphs_def replace_char_def ascii_digit_facts)
      (simp add: glyph_day_def glyph_hao_def)
  have m: "search rx_ymd ?s = Some ([], [[y1, y2, y3, y4], [m1, m2], [d1, d2]], [])"
    using dg by (simp add: rx_ymd_def rx_eval is_slash_or_dash_def ascii_digit_facts not_digit_seps)
  have f: "fmt_d 4 (int (int_of_digits [y1, y2, y3, y4])) = [y1, y2, y3, y4]"
    "fmt_d 2 (int (int_of_digits [m1, m2])) = [m1, m2]"
    "fmt_d 2 (int (int_of_digits [d1, d2])) = [d1, d2]"
    using dg fmt_d_digits[of "[y1, y2, y3, y4]"] fmt_d_digits[of "[m1, m2]"]
      fmt_d_digits[of "[d1, d2]"] by (simp_all add: eval_nat_numeral)
  show ?thesis
    by (simp add: to_iso_date_def Let_def n r m f fmt_date_def)
qed

lemma parse_day_month_family:
  assumes "list_all ascii_digit [a1, a2, b1, b2]"
  shows "parse_day_month_with_year p year [a1, a2, 47, b1, b2]
           = fmt_d 4 year @ [45] @
             (if (int_of_digits [a1, a2] > 12 \<and> int_of_digits [b1, b2] \<le> 12)
                 \<or> (\<not> (int_of_digits [b1, b2] > 12 \<and> int_of_digits [a1, a2] \<le> 12) \<and> p)
              then [b1, b2, 45, a1, a2] else [a1, a2, 45, b1, b2])"
proof -
  from assms have dg: "ascii_digit a1" "ascii_digit a2" "ascii_digit b1" "ascii_digit b2"
    by simp_all
  let ?s = "[a1, a2, 47, b1, b2]"
  have n: "normalize_text ?s = ?s"
    unfolding normalize_text_def using dg by (intro strip_fixed) (simp_all add: ascii_digit_facts)
  have m: "search rx_dm ?s = Some ([], [[a1, a2], [b1, b2]], [])"
    using dg by (simp add: rx_dm_def rx_eval ascii_digit_facts not_digit_seps)
  have f: "fmt_d 2 (int (int_of_digits [a1, a2])) = [a1, a2]"
    "fmt_d 2 (int (int_of_digits [b1, b2])) = [b1, b2]"
    using dg fmt_d_digits[of "[a1, a2]"] fmt_d_digits[of "[b1, b2]"] by (simp_all add: eval_nat_numeral)
  show ?thesis
    by (simp add: parse_day_month_with_year_def Let_def n m f fmt_date_def month_day_of_def)
qed

lemma to_iso_date_dmy_family:
  assumes "list_all ascii_digit [a1, a2, b1, b2, y1, y2, y3, y4]"
  shows "to_iso_date p [a1, a2, 47, b1, b2, 47, y1, y2, y3, y4]
           = [y1, y2, y3, y4, 45] @
             (if (int_of_digits [a1, a2] > 12 \<and> int_of_digits [b1, b2] \<le> 12)
                 \<or> (\<not> (int_of_digits [b1, b2] > 12 \<and> int_of_digits [a1, a2] \<le> 12) \<and> p)
              then [b1, b2, 45, a1, a2] else [a1, a2, 45, b1, b2])"
proof -
  from assms have dg: "ascii_digit a1" "ascii_digit a2" "ascii_digit b1" "ascii_digit b2"
    "ascii_digit y1" "ascii_digit y2" "ascii_digit y3" "ascii_digit y4"
    by simp_all
  let ?s = "[a1, a2, 47, b1, b2, 47, y1, y2, y3, y4]"
  have n: "normalize_text ?s = ?s"
    unfolding normalize_text_def using dg by (intro strip_fixed) (simp_all add: ascii_digit_facts)
  have r: "strip_day_glyphs ?s = ?s"
    using dg by (simp add: strip_day_glyphs_def replace_char_def ascii_digit_facts)
      (simp add: glyph_day_def glyph_hao_def)
  have m0: "search rx_ymd ?s = None"
    using dg by (simp add: rx_ymd_def rx_eval is_slash_or_dash_def ascii_digit_facts not_digit_seps)
  have m: "search rx_dmy ?s = Some ([], [[a1, a2], [b1, b2], [y1, y2, y3, y4]], [])"
    using dg by (simp add: rx_dmy_def rx_eval ascii_digit_facts not_digit_seps)
  have f: "fmt_d 4 (int (int_of_digits [y1, y2, y3, y4])) = [y1, y2, y3, y4]"
    "fmt_d 2 (int (int_of_digits [a1, a2])) = [a1, a2]"
    "fmt_d 2 (int (int_of_digits [b1, b2])) = [b1, b2]"
    using dg fmt_d_digits[of "[y1, y2, y3, y4]"] fmt_d_digits[of "[a1, a2]"]
      fmt_d_digits[of "[b1, b2]"] by (simp_all add: eval_nat_numeral)
  show ?thesis
    by (simp add: to_iso_date_def Let_def n r m0 m f fmt_date_def month_day_of_def)
qed

lemma strip_day_glyphs_filter:
  "strip_day_glyphs s = filter (\<lambda>c. \<not> day_glyph c) s"
  by (induction s) (auto simp: strip_day_glyphs_def replace_char_def day_glyph_def)

lemma to_iso_date_cases:
  assumes "normalize_text v \<noteq> []"
  shows "(matches_first rx_ymd (filter (\<lambda>c. \<not> day_glyph c) (normalize_text v)) g \<longrightarrow>
           to_iso_date p v = fmt_date (int (int_of_digits (g ! 0))) (int (int_of_digits (g ! 1)))
                               (int (int_of_digits (g ! 2))))
       \<and> (matches_nowhere rx_ymd (filter (\<lambda>c. \<not> day_glyph c) (normalize_text v))
          \<and> matches_first rx_dmy (filter (\<lambda>c. \<not> day_glyph c) (normalize_text v)) g \<longrightarrow>
           to_iso_date p v =
             (if (int_of_digits (g ! 0) > 12 \<and> int_of_digits (g ! 1) \<le> 12)
                 \<or> (\<not> (int_of_digits (g ! 1) > 12 \<and> int_of_digits (g ! 0) \<le> 12) \<and> p)
              then fmt_date (int (int_of_digits (g ! 2))) (int (int_of_digits (g ! 1)))
                     (int (int_of_digits (g ! 0)))
              else fmt_date (int (int_of_digits (g ! 2))) (int (int_of_digits (g ! 0)))
                     (int (int_of_digits (g ! 1)))))
       \<and> (matches_nowhere rx_ymd (filter (\<lambda>c. \<not> day_glyph c) (normalize_text v))
          \<and> matches_nowhere rx_dmy (filter (\<lambda>c. \<not> day_glyph c) (normalize_text v))
          \<and> matches_first rx_cn_ymd (filter (\<lambda>c. \<not> day_glyph c) (normalize_text v)) g \<longrightarrow>
           to_iso_date p v = fmt_date (int (int_of_digits (g ! 0))) (int (int_of_digits (g ! 1)))
                               (int (int_of_digits (g ! 2))))
       \<and> (matches_nowhere rx_ymd (filter (\<lambda>c. \<not> day_glyph c) (normalize_text v))
          \<and> matches_nowhere rx_dmy (filter (\<lambda>c. \<not> day_glyph c) (normalize_text v))
          \<and> matches_nowhere rx_cn_ymd (filter (\<lambda>c. \<not> day_glyph c) (normalize_text v)) \<longrightarrow>
           to_iso_date p v = [])"
proof (intro conjI impI; (elim conjE)?)
  let ?s = "filter (\<lambda>c. \<not> day_glyph c) (normalize_text v)"
  have s: "strip_day_glyphs (normalize_text v) = ?s"
    by (rule strip_day_glyphs_filter)
  {
    assume "matches_first rx_ymd ?s g"
    then obtain pre post where "search rx_ymd ?s = Some (pre, g, post)"
      using matches_first_search by blast
    then show "to_iso_date p v = fmt_date (int (int_of_digits (g ! 0)))
        (int (int_of_digits (g ! 1))) (int (int_of_digits (g ! 2)))"
      using assms by (simp add: to_iso_date_def Let_def s)
  }
  {
    assume "matches_nowhere rx_ymd ?s" "matches_first rx_dmy ?s g"
    then obtain pre post where "search rx_ymd ?s = None" "search rx_dmy ?s = Some (pre, g, post)"
      using matches_first_search matches_nowhere_search by blast
    then show "to_iso_date p v =
             (if (int_of_digits (g ! 0) > 12 \<and> int_of_digits (g ! 1) \<le> 12)
                 \<or> (\<not> (int_of_digits (g ! 1) > 12 \<and> int_of_digits (g ! 0) \<le> 12) \<and> p)
              then fmt_date (int (int_of_digits (g ! 2))) (int (int_of_digits (g ! 1)))
                     (int (int_of_digits (g ! 0)))
              else fmt_date (int (int_of_digits (g ! 2))) (int (int_of_digits (g ! 0)))
                     (int (int_of_digits (g ! 1))))"
      using assms by (simp add: to_iso_date_def Let_def s month_day_of_def)
  }
  {
    assume "matches_nowhere rx_ymd ?s" "matches_nowhere rx_dmy ?s" "matches_first rx_cn_ymd ?s g"
    then obtain pre post where "search rx_ymd ?s = None" "search rx_dmy ?s = None"
      "search rx_cn_ymd ?s = Some (pre, g, post)"
      using matches_first_search matches_nowhere_search by blast
    then show "to_iso_date p v = fmt_date (int (int_of_digits (g ! 0)))
        (int (int_of_digits (g ! 1))) (int (int_of_digits (g ! 2)))"
      using assms by (simp add: to_iso_date_def Let_def s)
  }
  {
    assume "matches_nowhere rx_ymd ?s" "matches_nowhere rx_dmy ?s" "matches_nowhere rx_cn_ymd ?s"
    then have "search rx_ymd ?s = None" "search rx_dmy ?s = None" "search rx_cn_ymd ?s = None"
      by (simp_all add: matches_nowhere_search)
    then show "to_iso_date p v = []"
      using assms by (simp add: to_iso_date_def Let_def s)
  }
qed

lemma parse_day_month_cases:
  assumes "normalize_text v \<noteq> []"
  shows "(matches_first rx_dm (normalize_text v) g \<longrightarrow>
           parse_day_month_with_year p year v =
             (if (int_of_digits (g ! 0) > 12 \<and> int_of_digits (g ! 1) \<le> 12)
                 \<or> (\<not> (int_of_digits (g ! 1) > 12 \<and> int_of_digits (g ! 0) \<le> 12) \<and> p)
              then fmt_date year (int (int_of_digits (g ! 1))) (int (int_of_digits (g ! 0)))
              else fmt_date year (int (int_of_digits (g ! 0))) (int (int_of_digits (g ! 1)))))
       \<and> (matches_nowhere rx_dm (normalize_text v) \<longrightarrow> parse_day_month_with_year p year v = [])"
proof (intro conjI impI)
  {
    assume "matches_first rx_dm (normalize_text v) g"
    then obtain pre post where "search rx_dm (normalize_text v) = Some (pre, g, post)"
      using matches_first_search by blast
    then show "parse_day_month_with_year p year v =
             (if (int_of_digits (g ! 0) > 12 \<and> int_of_digits (g ! 1) \<le> 12)
                 \<or> (\<not> (int_of_digits (g ! 1) > 12 \<and> int_of_digits (g ! 0) \<le> 12) \<and> p)
              then fmt_date year (int (int_of_digits (g ! 1))) (int (int_of_digits (g ! 0)))
              else fmt_date year (int (int_of_digits (g ! 0))) (int (int_of_digits (g ! 1))))"
      using assms by (simp add: parse_day_month_with_year_def Let_def month_day_of_def)
  }
  {
    assume "matches_nowhere rx_dm (normalize_text v)"
    then have "search rx_dm (normalize_text v) = None"
      by (simp add: matches_nowhere_search)
    then show "parse_day_month_with_year p year v = []"
      using assms by (simp add: parse_day_month_with_year_def Let_def)
  }
qed

lemma fmt_date_nonempty: "fmt_date y mo d \<noteq> []"
  by (simp add: fmt_date_def)

lemma to_iso_date_cn_family:
  assumes "list_all ascii_digit [y1, y2, y3, y4, m1, m2, d1, d2]" "list_all day_glyph sfx"
  shows "to_iso_date p ([y1, y2, y3, y4, glyph_year, m1, m2, glyph_month, d1, d2] @ sfx)
           = [y1, y2, y3, y4, 45, m1, m2, 45, d1, d2]"
proof -
  from assms have dg: "ascii_digit y1" "ascii_digit y2" "ascii_digit y3" "ascii_digit y4"
    "ascii_digit m1" "ascii_digit m2" "ascii_digit d1" "ascii_digit d2"
    by simp_all
  let ?d = "[y1, y2, y3, y4, glyph_year, m1, m2, glyph_month, d1, d2]"
  let ?s = "?d @ sfx"
  have sp: "\<not> is_space c" if "day_glyph c" for c
    using that by (auto simp: day_glyph_def glyph_day_def glyph_hao_def is_space_glyphs)
  have l: "\<not> is_space (last ?s)"
  proof (cases "sfx = []")
    case True
    then show ?thesis using dg by (simp add: ascii_digit_facts)
  next
    case False
    then have "last sfx \<in> set sfx" by simp
    with assms(2) have "day_glyph (last sfx)" by (simp add: list_all_iff)
    with False show ?thesis by (simp add: sp)
  qed
  have n: "normalize_text ?s = ?s"
    unfolding normalize_text_def using dg l by (intro strip_fixed) (simp_all add: ascii_digit_facts)
  have "filter (\<lambda>c. \<not> day_glyph c) sfx = []"
    using assms(2) by (simp add: list_all_iff)
  then have r: "strip_day_glyphs ?s = ?d"
    using dg unfolding strip_day_glyphs_filter filter_append
    by (simp add: day_glyph_def ascii_digit_facts)
      (simp add: glyph_day_def glyph_hao_def glyph_year_def glyph_month_def)
  have m0: "search rx_ymd ?d = None" "search rx_dmy ?d = None"
    using dg by (simp_all add: rx_ymd_def rx_dmy_def rx_eval is_slash_or_dash_def ascii_digit_facts
        not_digit_seps)
      (simp_all add: glyph_year_def glyph_month_def)
  have m: "search rx_cn_ymd ?d = Some ([], [[y1, y2, y3, y4], [m1, m2], [d1, d2]], [])"
    using dg by (simp add: rx_cn_ymd_def rx_eval ascii_digit_facts not_digit_seps)
  have f: "fmt_d 4 (int (int_of_digits [y1, y2, y3, y4])) = [y1, y2, y3, y4]"
    "fmt_d 2 (int (int_of_digits [m1, m2])) = [m1, m2]"
    "fmt_d 2 (int (int_of_digits [d1, d2])) = [d1, d2]"
    using dg fmt_d_digits[of "[y1, y2, y3, y4]"] fmt_d_digits[of "[m1, m2]"]
      fmt_d_digits[of "[d1, d2]"] by (simp_all add: eval_nat_numeral)
  have ne: "?s \<noteq> []" by simp
  show ?thesis
    unfolding to_iso_date_def Let_def n r using ne by (simp add: m0 m f fmt_date_def)
qed

lemmas eval_date = to_iso_date_def parse_day_month_with_year_def Let_def eval_text rx_defs
  eval_digits month_day_of_def

text \<open>
  C7 (amended): \<open>to_iso_date\<close> trims the text, removes every day-suffix glyph (U+65E5 and
  U+53F7) wherever it stands, and then tries on what is left the year-first pattern, the
  \<open>D/M/YYYY\<close> pattern and the localized year-month-day pattern, in this order, taking the
  leftmost match of the first pattern that matches anywhere; a text that is blank or that no
  pattern matches gives the empty string.  For \<open>D/M/YYYY\<close> a component above 12 beside
  one of at most 12 is the day; otherwise the day-first preference decides.  The three
  spellings of 21 December 2023 give \<open>2023-12-21\<close>, with or without a day-suffix glyph,
  also when the glyph stands inside the date, and \<open>13/5/2023\<close> gives day 13, month 5
  whatever the preference.
\<close>

theorem to_iso_date_order:
  "(normalize_text v = [] \<longrightarrow> to_iso_date p v = [])
   \<and> (normalize_text v \<noteq> [] \<longrightarrow>
      (matches_first rx_ymd (filter (\<lambda>c. \<not> day_glyph c) (normalize_text v)) g \<longrightarrow>
           to_iso_date p v = fmt_date (int (int_of_digits (g ! 0))) (int (int_of_digits (g ! 1)))
                               (int (int_of_digits (g ! 2))))
       \<and> (matches_nowhere rx_ymd (filter (\<lambda>c. \<not> day_glyph c) (normalize_text v))
          \<and> matches_first rx_dmy (filter (\<lambda>c. \<not> day_glyph c) (normalize_text v)) g \<longrightarrow>
           to_iso_date p v =
             (if (int_of_digits (g ! 0) > 12 \<and> int_of_digits (g ! 1) \<le> 12)
                 \<or> (\<not> (int_of_digits (g ! 1) > 12 \<and> int_of_digits (g ! 0) \<le> 12) \<and> p)
              then fmt_date (int (int_of_digits (g ! 2))) (int (int_of_digits (g ! 1)))
                     (int (int_of_digits (g ! 0)))
              else fmt_date (int (int_of_digits (g ! 2))) (int (int_of_digits (g ! 0)))
                     (int (int_of_digits (g ! 1)))))
       \<and> (matches_nowhere rx_ymd (filter (\<lambda>c. \<not> day_glyph c) (normalize_text v))
          \<and> matches_nowhere rx_dmy (filter (\<lambda>c. \<not> day_glyph c) (normalize_text v))
          \<and> matches_first rx_cn_ymd (filter (\<lambda>c. \<not> day_glyph c) (normalize_text v)) g \<longrightarrow>
           to_iso_date p v = fmt_date (int (int_of_digits (g ! 0))) (int (int_of_digits (g ! 1)))
                               (int (int_of_digits (g ! 2))))
       \<and> (matches_nowhere rx_ymd (filter (\<lambda>c. \<not> day_glyph c) (normalize_text v))
          \<and> matches_nowhere rx_dmy (filter (\<lambda>c. \<not> day_glyph c) (normalize_text v))
          \<and> matches_nowhere rx_cn_ymd (filter (\<lambda>c. \<not> day_glyph c) (normalize_text v)) \<longrightarrow>
           to_iso_date p v = []))
   \<and> (list_all ascii_digit [a1, a2, b1, b2, y1, y2, y3, y4] \<longrightarrow>
        to_iso_date p [a1, a2, 47, b1, b2, 47, y1, y2, y3, y4]
           = [y1, y2, y3, y4, 45] @
             (if (int_of_digits [a1, a2] > 12 \<and> int_of_digits [b1, b2] \<le> 12)
                 \<or> (\<not> (int_of_digits [b1, b2] > 12 \<and> int_of_digits [a1, a2] \<le> 12) \<and> p)
              then [b1, b2, 45, a1, a2] else [a1, a2, 45, b1, b2]))
   \<and> (list_all ascii_digit [y1, y2, y3, y4, a1, a2, b1, b2] \<and> list_all day_glyph sfx \<longrightarrow>
        to_iso_date p ([y1, y2, y3, y4, glyph_year, a1, a2, glyph_month, b1, b2] @ sfx)
           = [y1, y2, y3, y4, 45, a1, a2, 45, b1, b2])
   \<and> to_iso_date True (ascii ''2023/12/21'') = ascii ''2023-12-21''
   \<and> to_iso_date True (ascii ''21/12/2023'') = ascii ''2023-12-21''
   \<and> to_iso_date True (ascii ''2023'' @ [glyph_year] @ ascii ''12'' @ [glyph_month] @ ascii ''21'')
        = ascii ''2023-12-21''
   \<and> to_iso_date p (ascii ''13/5/2023'') = ascii ''2023-05-13''
   \<and> to_iso_date True (ascii ''2023'' @ [glyph_year] @ ascii ''12'' @ [glyph_month] @ ascii ''21''
                          @ [glyph_day]) = ascii ''2023-12-21''
   \<and> to_iso_date True (ascii ''2023/12/21'' @ [glyph_hao]) = ascii ''2023-12-21''
   \<and> to_iso_date True (ascii ''21'' @ [glyph_day] @ ascii ''/12/2023'') = ascii ''2023-12-21''"
proof -
  have e0: "normalize_text v = [] \<longrightarrow> to_iso_date p v = []"
    by (simp add: to_iso_date_def)
  have e1: "to_iso_date True (ascii ''2023/12/21'') = ascii ''2023-12-21''"
    by (simp add: eval_date)
  have e2: "to_iso_date True (ascii ''21/12/2023'') = ascii ''2023-12-21''"
    by (simp add: eval_date)
  have e3: "to_iso_date True (ascii ''2023'' @ [glyph_year] @ ascii ''12'' @ [glyph_month]
              @ ascii ''21'') = ascii ''2023-12-21''"
    by (simp add: eval_date)
  have e4: "to_iso_date p (ascii ''13/5/2023'') = ascii ''2023-05-13''"
    by (simp add: eval_date)
  have e5: "to_iso_date True (ascii ''2023'' @ [glyph_year] @ ascii ''12'' @ [glyph_month]
              @ ascii ''21'' @ [glyph_day]) = ascii ''2023-12-21''"
    by (simp add: eval_date)
  have e6: "to_iso_date True (ascii ''2023/12/21'' @ [glyph_hao]) = ascii ''2023-12-21''"
    by (simp add: eval_date)
  have e7: "to_iso_date True (ascii ''21'' @ [glyph_day] @ ascii ''/12/2023'') = ascii ''2023-12-21''"
    by (simp add: eval_date)
  have c: "normalize_text v \<noteq> [] \<longrightarrow>
      (matches_first rx_ymd (filter (\<lambda>c. \<not> day_glyph c) (normalize_text v)) g \<longrightarrow>
           to_iso_date p v = fmt_date (int (int_of_digits (g ! 0))) (int (int_of_digits (g ! 1)))
                               (int (int_of_digits (g ! 2))))
       \<and> (matches_nowhere rx_ymd (filter (\<lambda>c. \<not> day_glyph c) (normalize_text v))
          \<and> matches_first rx_dmy (filter (\<lambda>c. \<not> day_glyph c) (normalize_text v)) g \<longrightarrow>
           to_iso_date p v =
             (if (int_of_digits (g ! 0) > 12 \<and> int_of_digits (g ! 1) \<le> 12)
                 \<or> (\<not> (int_of_digits (g ! 1) > 12 \<and> int_of_digits (g ! 0) \<le> 12) \<and> p)
              then fmt_date (int (int_of_digits (g ! 2))) (int (int_of_digits (g ! 1)))
                     (int (int_of_digits (g ! 0)))
              else fmt_date (int (int_of_digits (g ! 2))) (int (int_of_digits (g ! 0)))
                     (int (int_of_digits (g ! 1)))))
       \<and> (matches_nowhere rx_ymd (filter (\<lambda>c. \<not> day_glyph c) (normalize_text v))
          \<and> matches_nowhere rx_dmy (filter (\<lambda>c. \<not> day_glyph c) (normalize_text v))
          \<and> matches_first rx_cn_ymd (filter (\<lambda>c. \<not> day_glyph c) (normalize_text v)) g \<longrightarrow>
           to_iso_date p v = fmt_date (int (int_of_digits (g ! 0))) (int (int_of_digits (g ! 1)))
                               (int (int_of_digits (g ! 2))))
       \<and> (matches_nowhere rx_ymd (filter (\<lambda>c. \<not> day_glyph c) (normalize_text v))
          \<and> matches_nowhere rx_dmy (filter (\<lambda>c. \<not> day_glyph c) (normalize_text v))
          \<and> matches_nowhere rx_cn_ymd (filter (\<lambda>c. \<not> day_glyph c) (normalize_text v)) \<longrightarrow>
           to_iso_date p v = [])"
    using to_iso_date_cases[of v g p] by (rule impI)
  have f1: "list_all ascii_digit [a1, a2, b1, b2, y1, y2, y3, y4] \<longrightarrow>
        to_iso_date p [a1, a2, 47, b1, b2, 47, y1, y2, y3, y4]
           = [y1, y2, y3, y4, 45] @
             (if (int_of_digits [a1, a2] > 12 \<and> int_of_digits [b1, b2] \<le> 12)
                 \<or> (\<not> (int_of_digits [b1, b2] > 12 \<and> int_of_digits [a1, a2] \<le> 12) \<and> p)
              then [b1, b2, 45, a1, a2] else [a1, a2, 45, b1, b2])"
    using to_iso_date_dmy_family[of a1 a2 b1 b2 y1 y2 y3 y4 p] by (rule impI)
  have f2: "list_all ascii_digit [y1, y2, y3, y4, a1, a2, b1, b2] \<and> list_all day_glyph sfx \<longrightarrow>
        to_iso_date p ([y1, y2, y3, y4, glyph_year, a1, a2, glyph_month, b1, b2] @ sfx)
           = [y1, y2, y3, y4, 45, a1, a2, 45, b1, b2]"
    using to_iso_date_cn_family[of y1 y2 y3 y4 a1 a2 b1 b2 sfx p] by blast
  from e0 c f1 f2 e1 e2 e3 e4 e5 e6 e7 show ?thesis
    by (intro conjI)
qed

theorem to_iso_date_order_witness:
  "to_iso_date True (ascii ''5/6/2023 2024-1-2'') = ascii ''2024-01-02''
   \<and> to_iso_date False (ascii ''5/6/2023'') = ascii ''2023-05-06''
   \<and> to_iso_date True (ascii ''05/13/2023'') = ascii ''2023-05-13''
   \<and> to_iso_date False (ascii ''2024'' @ [glyph_year] @ ascii ''02'' @ [glyph_month] @ ascii ''29''
                           @ [glyph_hao, glyph_day]) = ascii ''2024-02-29''
   \<and> to_iso_date True (ascii ''  '') = []"
proof -
  have n: "normalize_text (ascii ''5/6/2023 2024-1-2'') \<noteq> []"
    "normalize_text (ascii ''5/6/2023'') \<noteq> []" "normalize_text (ascii ''  '') = []"
    by (simp_all add: eval_text)
  have s1: "search rx_ymd (filter (\<lambda>c. \<not> day_glyph c) (normalize_text (ascii ''5/6/2023 2024-1-2'')))
      = Some (ascii ''5/6/2023 '', [ascii ''2024'', ascii ''1'', ascii ''2''], [])"
    by (simp add: eval_text rx_defs eval_digits day_glyph_def)
  have s2: "search rx_ymd (filter (\<lambda>c. \<not> day_glyph c) (normalize_text (ascii ''5/6/2023''))) = None"
    "search rx_dmy (filter (\<lambda>c. \<not> day_glyph c) (normalize_text (ascii ''5/6/2023'')))
      = Some ([], [ascii ''5'', ascii ''6'', ascii ''2023''], [])"
    by (simp_all add: eval_text rx_defs eval_digits day_glyph_def)
  note m1 = search_matches_first[OF s1]
  note m2 = s2(1)[folded matches_nowhere_search] search_matches_first[OF s2(2)]
  have f: "fmt_date (int (int_of_digits (ascii ''2024''))) (int (int_of_digits (ascii ''1'')))
             (int (int_of_digits (ascii ''2''))) = ascii ''2024-01-02''"
    "fmt_date (int (int_of_digits (ascii ''2023''))) (int (int_of_digits (ascii ''5'')))
             (int (int_of_digits (ascii ''6''))) = ascii ''2023-05-06''"
    "int_of_digits (ascii ''5'') = 5" "int_of_digits (ascii ''6'') = 6"
    by (simp_all add: eval_text eval_digits)
  have 1: "to_iso_date True (ascii ''5/6/2023 2024-1-2'') = ascii ''2024-01-02''"
    using to_iso_date_order[of "ascii ''5/6/2023 2024-1-2''" True
        "[ascii ''2024'', ascii ''1'', ascii ''2'']"] n m1 f
    by simp
  have 2: "to_iso_date False (ascii ''5/6/2023'') = ascii ''2023-05-06''"
    using to_iso_date_order[of "ascii ''5/6/2023''" False
        "[ascii ''5'', ascii ''6'', ascii ''2023'']"] n m2 f
    by simp
  have 3: "to_iso_date True (ascii ''05/13/2023'') = ascii ''2023-05-13''"
    using to_iso_date_order[of _ True _ 48 53 49 51 50 48 50 51]
    by (simp add: ascii_def ascii_digit_def int_of_digits_def digit_value_low)
  have 4: "to_iso_date False (ascii ''2024'' @ [glyph_year] @ ascii ''02'' @ [glyph_month]
             @ ascii ''29'' @ [glyph_hao, glyph_day]) = ascii ''2024-02-29''"
    using to_iso_date_order[of _ False _ 48 50 50 57 50 48 50 52 "[glyph_hao, glyph_day]"]
    by (simp add: ascii_def ascii_digit_def day_glyph_def)
  have 5: "to_iso_date True (ascii ''  '') = []"
    using to_iso_date_order[of "ascii ''  ''" True] n by simp
  from 1 2 3 4 5 show ?thesis by (intro conjI)
qed

text \<open>
  C7 (as stated, refuted): in \<open>21\<close>, day glyph, \<open>/12/2023\<close> the glyph is not a trailing
  one, and with it in place neither the year-first nor the \<open>D/M/YYYY\<close> pattern matches and
  the text has no localized date either, so the parser as specified gives the empty string;
  \<open>to_iso_date\<close> removes the glyph before any pattern is tried and gives \<open>2023-12-21\<close>.
\<close>

theorem to_iso_date_inner_glyph_counterexample:
  "to_iso_date True (ascii ''21'' @ [glyph_day] @ ascii ''/12/2023'') = ascii ''2023-12-21''
   \<and> spec_to_iso_date True (ascii ''21'' @ [glyph_day] @ ascii ''/12/2023'') = []"
proof -
  have 1: "to_iso_date True (ascii ''21'' @ [glyph_day] @ ascii ''/12/2023'') = ascii ''2023-12-21''"
    by (simp add: eval_date)
  have 2: "spec_to_iso_date True (ascii ''21'' @ [glyph_day] @ ascii ''/12/2023'') = []"
    by (simp add: spec_to_iso_date_def strip_trailing_day_glyphs_def day_glyph_def eval_date)
  from 1 2 show ?thesis by simp
qed

text \<open>
  C10: the date parsers do not check the matched components against the calendar.  For every
  text, whenever one of the patterns of \<open>to_iso_date\<close> or the pattern of
  \<open>parse_day_month_with_year\<close> matches, the result is the formatted string of the matched
  numbers, whatever their values, and it is not empty.  In particular every two-digit month
  and day, from 00 to 99, is passed through: \<open>to_iso_date\<close> on \<open>YYYY/MM/DD\<close> returns
  \<open>YYYY-MM-DD\<close> with the same digits, and \<open>parse_day_month_with_year\<close> on \<open>AA/BB\<close>
  returns the formatted year followed by both components, in the order the day/month
  heuristic chooses.  So \<open>2023/99/99\<close> gives \<open>2023-99-99\<close> and \<open>25/13\<close> with year
  2023 gives \<open>2023-13-25\<close>.
\<close>

theorem date_parsers_no_range_check:
  "(normalize_text v \<noteq> [] \<longrightarrow>
      (matches_first rx_ymd (filter (\<lambda>c. \<not> day_glyph c) (normalize_text v)) g \<longrightarrow>
         to_iso_date p v = fmt_date (int (int_of_digits (g ! 0))) (int (int_of_digits (g ! 1)))
                             (int (int_of_digits (g ! 2)))
         \<and> to_iso_date p v \<noteq> [])
    \<and> (matches_nowhere rx_ymd (filter (\<lambda>c. \<not> day_glyph c) (normalize_text v))
        \<and> matches_first rx_dmy (filter (\<lambda>c. \<not> day_glyph c) (normalize_text v)) g \<longrightarrow>
         to_iso_date p v =
           (case month_day_of p (int_of_digits (g ! 0)) (int_of_digits (g ! 1)) of
              (mo, d) \<Rightarrow> fmt_date (int (int_of_digits (g ! 2))) (int mo) (int d))
         \<and> to_iso_date p v \<noteq> [])
    \<and> (matches_nowhere rx_ymd (filter (\<lambda>c. \<not> day_glyph c) (normalize_text v))
        \<and> matches_nowhere rx_dmy (filter (\<lambda>c. \<not> day_glyph c) (normalize_text v))
        \<and> matches_first rx_cn_ymd (filter (\<lambda>c. \<not> day_glyph c) (normalize_text v)) g \<longrightarrow>
         to_iso_date p v = fmt_date (int (int_of_digits (g ! 0))) (int (int_of_digits (g ! 1)))
                             (int (int_of_digits (g ! 2)))
         \<and> to_iso_date p v \<noteq> [])
    \<and> (matches_first rx_dm (normalize_text v) g \<longrightarrow>
         parse_day_month_with_year p year v =
           (case month_day_of p (int_of_digits (g ! 0)) (int_of_digits (g ! 1)) of
              (mo, d) \<Rightarrow> fmt_date year (int mo) (int d))
         \<and> parse_day_month_with_year p year v \<noteq> []))
   \<and> (list_all ascii_digit [y1, y2, y3, y4, m1, m2, d1, d2] \<longrightarrow>
      to_iso_date p [y1, y2, y3, y4, 47, m1, m2, 47, d1, d2]
        = [y1, y2, y3, y4, 45, m1, m2, 45, d1, d2])
   \<and> (list_all ascii_digit [a1, a2, b1, b2] \<longrightarrow>
        parse_day_month_with_year p year [a1, a2, 47, b1, b2]
           = fmt_d 4 year @ [45] @
             (if (int_of_digits [a1, a2] > 12 \<and> int_of_digits [b1, b2] \<le> 12)
                 \<or> (\<not> (int_of_digits [b1, b2] > 12 \<and> int_of_digits [a1, a2] \<le> 12) \<and> p)
              then [b1, b2, 45, a1, a2] else [a1, a2, 45, b1, b2]))
   \<and> to_iso_date True (ascii ''2023/99/99'') = ascii ''2023-99-99''
   \<and> parse_day_month_with_year True 2023 (ascii ''25/13'') = ascii ''2023-13-25''"
proof -
  have e1: "to_iso_date True (ascii ''2023/99/99'') = ascii ''2023-99-99''"
    by (simp add: eval_date)
  have e2: "parse_day_month_with_year True 2023 (ascii ''25/13'') = ascii ''2023-13-25''"
    by (simp add: eval_date)
  have md: "(case month_day_of p a b of (mo, d) \<Rightarrow> fmt_date y (int mo) (int d))
      = (if (a > 12 \<and> b \<le> 12) \<or> (\<not> (b > 12 \<and> a \<le> 12) \<and> p)
         then fmt_date y (int b) (int a) else fmt_date y (int a) (int b))" for a b y
    by (simp add: month_day_of_def)
  have ne: "(case month_day_of p a b of (mo, d) \<Rightarrow> fmt_date y (int mo) (int d)) \<noteq> []" for a b y
    by (simp add: fmt_date_nonempty split: prod.split)
  have g: "normalize_text v \<noteq> [] \<longrightarrow>
      (matches_first rx_ymd (filter (\<lambda>c. \<not> day_glyph c) (normalize_text v)) g \<longrightarrow>
         to_iso_date p v = fmt_date (int (int_of_digits (g ! 0))) (int (int_of_digits (g ! 1)))
                             (int (int_of_digits (g ! 2)))
         \<and> to_iso_date p v \<noteq> [])
    \<and> (matches_nowhere rx_ymd (filter (\<lambda>c. \<not> day_glyph c) (normalize_text v))
        \<and> matches_first rx_dmy (filter (\<lambda>c. \<not> day_glyph c) (normalize_text v)) g \<longrightarrow>
         to_iso_date p v =
           (case month_day_of p (int_of_digits (g ! 0)) (int_of_digits (g ! 1)) of
              (mo, d) \<Rightarrow> fmt_date (int (int_of_digits (g ! 2))) (int mo) (int d))
         \<and> to_iso_date p v \<noteq> [])
    \<and> (matches_nowhere rx_ymd (filter (\<lambda>c. \<not> day_glyph c) (normalize_text v))
        \<and> matches_nowhere rx_dmy (filter (\<lambda>c. \<not> day_glyph c) (normalize_text v))
        \<and> matches_first rx_cn_ymd (filter (\<lambda>c. \<not> day_glyph c) (normalize_text v)) g \<longrightarrow>
         to_iso_date p v = fmt_date (int (int_of_digits (g ! 0))) (int (int_of_digits (g ! 1)))
                             (int (int_of_digits (g ! 2)))
         \<and> to_iso_date p v \<noteq> [])
    \<and> (matches_first rx_dm (normalize_text v) g \<longrightarrow>
         parse_day_month_with_year p year v =
           (case month_day_of p (int_of_digits (g ! 0)) (int_of_digits (g ! 1)) of
              (mo, d) \<Rightarrow> fmt_date year (int mo) (int d))
         \<and> parse_day_month_with_year p year v \<noteq> [])"
  proof (intro impI conjI; (elim conjE)?)
    assume n: "normalize_text v \<noteq> []"
    note t = to_iso_date_cases[OF n, of g p]
    note d = parse_day_month_cases[OF n, of g p year]
    {
      assume a: "matches_first rx_ymd (filter (\<lambda>c. \<not> day_glyph c) (normalize_text v)) g"
      with t show "to_iso_date p v = fmt_date (int (int_of_digits (g ! 0)))
          (int (int_of_digits (g ! 1))) (int (int_of_digits (g ! 2)))" by blast
      with fmt_date_nonempty show "to_iso_date p v \<noteq> []" by simp
    }
    {
      assume a: "matches_nowhere rx_ymd (filter (\<lambda>c. \<not> day_glyph c) (normalize_text v))"
        "matches_first rx_dmy (filter (\<lambda>c. \<not> day_glyph c) (normalize_text v)) g"
      with t show "to_iso_date p v =
           (case month_day_of p (int_of_digits (g ! 0)) (int_of_digits (g ! 1)) of
              (mo, d) \<Rightarrow> fmt_date (int (int_of_digits (g ! 2))) (int mo) (int d))"
        unfolding md by blast
      with ne show "to_iso_date p v \<noteq> []" by simp
    }
    {
      assume a: "matches_nowhere rx_ymd (filter (\<lambda>c. \<not> day_glyph c) (normalize_text v))"
        "matches_nowhere rx_dmy (filter (\<lambda>c. \<not> day_glyph c) (normalize_text v))"
        "matches_first rx_cn_ymd (filter (\<lambda>c. \<not> day_glyph c) (normalize_text v)) g"
      with t show "to_iso_date p v = fmt_date (int (int_of_digits (g ! 0)))
          (int (int_of_digits (g ! 1))) (int (int_of_digits (g ! 2)))" by blast
      with fmt_date_nonempty show "to_iso_date p v \<noteq> []" by simp
    }
    {
      assume a: "matches_first rx_dm (normalize_text v) g"
      with d show "parse_day_month_with_year p year v =
           (case month_day_of p (int_of_digits (g ! 0)) (int_of_digits (g ! 1)) of
              (mo, d) \<Rightarrow> fmt_date year (int mo) (int d))"
        unfolding md by blast
      with ne show "parse_day_month_with_year p year v \<noteq> []" by simp
    }
  qed
  have f1: "list_all ascii_digit [y1, y2, y3, y4, m1, m2, d1, d2] \<longrightarrow>
      to_iso_date p [y1, y2, y3, y4, 47, m1, m2, 47, d1, d2]
        = [y1, y2, y3, y4, 45, m1, m2, 45, d1, d2]"
    using to_iso_date_ymd_family[of y1 y2 y3 y4 m1 m2 d1 d2 p] by (rule impI)
  have f2: "list_all ascii_digit [a1, a2, b1, b2] \<longrightarrow>
        parse_day_month_with_year p year [a1, a2, 47, b1, b2]
           = fmt_d 4 year @ [45] @
             (if (int_of_digits [a1, a2] > 12 \<and> int_of_digits [b1, b2] \<le> 12)
                 \<or> (\<not> (int_of_digits [b1, b2] > 12 \<and> int_of_digits [a1, a2] \<le> 12) \<and> p)
              then [b1, b2, 45, a1, a2] else [a1, a2, 45, b1, b2])"
    using parse_day_month_family[of a1 a2 b1 b2 p year] by (rule impI)
  from g f1 f2 e1 e2 show ?thesis by (intro conjI)
qed

theorem date_parsers_no_range_check_witness:
  "to_iso_date False (ascii ''on 2024-13-7!'') = ascii ''2024-13-07''
   \<and> to_iso_date True (ascii ''40/50/2023'') = ascii ''2023-50-40''
   \<and> to_iso_date True (ascii ''2023'' @ [glyph_year] @ ascii ''0'' @ [glyph_month] @ ascii ''99'')
        = ascii ''2023-00-99''
   \<and> parse_day_month_with_year False 7 (ascii ''due 99/0 ok'') = ascii ''0007-00-99''
   \<and> to_iso_date False (ascii ''2024/13/32'') = ascii ''2024-13-32''
   \<and> parse_day_month_with_year False 2023 (ascii ''31/00'') = ascii ''2023-00-31''"
proof -
  let ?cn = "ascii ''2023'' @ [glyph_year] @ ascii ''0'' @ [glyph_month] @ ascii ''99''"
  have n: "normalize_text (ascii ''on 2024-13-7!'') \<noteq> []"
    "normalize_text (ascii ''40/50/2023'') \<noteq> []"
    "normalize_text ?cn \<noteq> []"
    "normalize_text (ascii ''due 99/0 ok'') \<noteq> []"
    by (simp_all add: eval_text)
  have s1: "search rx_ymd (filter (\<lambda>c. \<not> day_glyph c) (normalize_text (ascii ''on 2024-13-7!'')))
      = Some (ascii ''on '', [ascii ''2024'', ascii ''13'', ascii ''7''], ascii ''!'')"
    by (simp add: eval_text rx_defs eval_digits day_glyph_def)
  have s2: "search rx_ymd (filter (\<lambda>c. \<not> day_glyph c) (normalize_text (ascii ''40/50/2023''))) = None"
    "search rx_dmy (filter (\<lambda>c. \<not> day_glyph c) (normalize_text (ascii ''40/50/2023'')))
      = Some ([], [ascii ''40'', ascii ''50'', ascii ''2023''], [])"
    by (simp_all add: eval_text rx_defs eval_digits day_glyph_def)
  have s3: "search rx_ymd (filter (\<lambda>c. \<not> day_glyph c) (normalize_text ?cn)) = None"
    "search rx_dmy (filter (\<lambda>c. \<not> day_glyph c) (normalize_text ?cn)) = None"
    "search rx_cn_ymd (filter (\<lambda>c. \<not> day_glyph c) (normalize_text ?cn))
      = Some ([], [ascii ''2023'', ascii ''0'', ascii ''99''], [])"
    by (simp_all add: eval_text rx_defs eval_digits day_glyph_def)
  have s4: "search rx_dm (normalize_text (ascii ''due 99/0 ok''))
      = Some (ascii ''due '', [ascii ''99'', ascii ''0''], ascii '' ok'')"
    by (simp add: eval_text rx_defs eval_digits)
  note m1 = search_matches_first[OF s1]
  note m2 = s2(1)[folded matches_nowhere_search] search_matches_first[OF s2(2)]
  note m3 = s3(1,2)[folded matches_nowhere_search] search_matches_first[OF s3(3)]
  note m4 = search_matches_first[OF s4]
  have r3: "replicate 3 (48::nat) = [48, 48, 48]"
    by (simp add: numeral_3_eq_3)
  have f: "fmt_date (int (int_of_digits (ascii ''2024''))) (int (int_of_digits (ascii ''13'')))
             (int (int_of_digits (ascii ''7''))) = ascii ''2024-13-07''"
    "(case month_day_of True (int_of_digits (ascii ''40'')) (int_of_digits (ascii ''50'')) of
        (mo, d) \<Rightarrow> fmt_date (int (int_of_digits (ascii ''2023''))) (int mo) (int d))
       = ascii ''2023-50-40''"
    "fmt_date (int (int_of_digits (ascii ''2023''))) (int (int_of_digits (ascii ''0'')))
             (int (int_of_digits (ascii ''99''))) = ascii ''2023-00-99''"
    "(case month_day_of False (int_of_digits (ascii ''99'')) (int_of_digits (ascii ''0'')) of
        (mo, d) \<Rightarrow> fmt_date 7 (int mo) (int d)) = ascii ''0007-00-99''"
    by (simp_all add: eval_text eval_digits month_day_of_def r3)
  have y: "fmt_d 4 2023 = ascii ''2023''"
    by (simp add: eval_digits ascii_def)
  have 1: "to_iso_date False (ascii ''on 2024-13-7!'') = ascii ''2024-13-07''"
    using date_parsers_no_range_check[of "ascii ''on 2024-13-7!''"
        "[ascii ''2024'', ascii ''13'', ascii ''7'']" False] n m1 f(1)
    by simp
  have 2: "to_iso_date True (ascii ''40/50/2023'') = ascii ''2023-50-40''"
    using date_parsers_no_range_check[of "ascii ''40/50/2023''"
        "[ascii ''40'', ascii ''50'', ascii ''2023'']" True] n m2 f(2)
    by simp
  have 3: "to_iso_date True ?cn = ascii ''2023-00-99''"
    using date_parsers_no_range_check[of ?cn "[ascii ''2023'', ascii ''0'', ascii ''99'']" True]
      n m3 f(3)
    by simp
  have 4: "parse_day_month_with_year False 7 (ascii ''due 99/0 ok'') = ascii ''0007-00-99''"
    using date_parsers_no_range_check[of "ascii ''due 99/0 ok''" "[ascii ''99'', ascii ''0'']"
        False 7] n m4 f(4)
    by simp
  have 5: "to_iso_date False (ascii ''2024/13/32'') = ascii ''2024-13-32''"
    using date_parsers_no_range_check[of _ _ False _ 50 48 50 52 49 51 51 50]
    by (simp add: ascii_def ascii_digit_def)
  have 6: "parse_day_month_with_year False 2023 (ascii ''31/00'') = ascii ''2023-00-31''"
    using date_parsers_no_range_check[of _ _ False 2023 _ _ _ _ _ _ _ _ 51 49 48 48] y
    by (simp add: ascii_def ascii_digit_def int_of_digits_def digit_value_low)
  from 1 2 3 4 5 6 show ?thesis by (intro conjI)
qed

section \<open>Properties of the visit window\<close>

lemma sub_first_cut: "cut r s (sub_first r s)"
proof (cases "search r s")
  case None
  then have "\<forall>j \<le> length s. rmatch r (drop j s) = []" by (simp add: search_None)
  with None show ?thesis by (simp add: cut_def sub_first_def)
next
  case (Some a)
  obtain pre g post where a: "a = (pre, g, post)" by (cases a)
  from search_Some[OF Some[unfolded a]] obtain m alts where
    m: "s = pre @ m @ post" "rmatch r (m @ post) = (g, post) # alts"
    "\<forall>j < length pre. rmatch r (drop j s) = []" by blast
  have "sub_first r s = pre @ post"
    by (simp add: sub_first_def Some a)
  with m have "\<exists>pre' m' post' g' alts'. s = pre' @ m' @ post' \<and> sub_first r s = pre' @ post'
           \<and> rmatch r (m' @ post') = (g', post') # alts'
           \<and> (\<forall>j < length pre'. rmatch r (drop j s) = [])"
    by blast
  then show ?thesis unfolding cut_def by (rule disjI2)
qed

text \<open>
  C9 (as stated, refuted): from the visit text \<open>1/2/2023 3\<close>, month glyph, \<open>4\<close> the parser
  takes the date 2023-02-01 and returns the empty window: both date substrings are removed,
  one by the \<open>D/M/YYYY\<close> substitution and one by the month-day substitution.  No window that
  the specification allows (at most one date-shaped substring removed) is empty.
\<close>

theorem visit_window_two_dates_counterexample:
  "parse_visit_date_and_window None None visit_sample = (ascii ''2023-02-01'', [])
   \<and> [] \<notin> set (spec_windows visit_sample)"
proof -
  have "parse_visit_date_and_window None None visit_sample = (ascii ''2023-02-01'', [])"
    by (simp add: parse_visit_date_and_window_def visit_sample_def tidy_window_def strip_dates_def
      eval_date is_lead_punct_def)
  moreover have "[] \<notin> set (spec_windows visit_sample)"
    by (simp add: spec_windows_def one_removed_def date_shaped_def visit_sample_def tidy_window_def
      eval_date is_lead_punct_def upt_rec[of _ "numeral n" for n] upt_rec[of _ "Suc n" for n])
  ultimately show ?thesis by simp
qed

text \<open>
  C9 (amended): when \<open>parse_visit_date_and_window\<close> extracts a date, the window is the
  normalized visit text after four substitutions in a fixed order, one for each date pattern
  (year-first, \<open>D/M/YYYY\<close>, localized year-month-day, localized month-day), each removing
  the leftmost match of its pattern if there is one, followed by the removal of the
  day-suffix glyphs, of leading punctuation and white space, and of surrounding white space.
  So up to four date substrings are removed, and which ones does not depend on the pattern
  or the contextual year that produced the date.  When no date is extracted the window is the
  normalized text.
\<close>

theorem visit_window_cuts:
  assumes "parse_visit_date_and_window cy fy v = (date, w)"
  shows "(date \<noteq> [] \<longrightarrow>
           (\<exists>w1 w2 w3 w4. cut rx_ymd (normalize_text v) w1 \<and> cut rx_dmy w1 w2
               \<and> cut rx_cn_ymd w2 w3 \<and> cut rx_cn_md w3 w4
               \<and> w4 = strip_dates (normalize_text v) \<and> w = tidy_window w4))
       \<and> (date = [] \<longrightarrow> w = normalize_text v)"
proof (intro conjI impI)
  assume "date \<noteq> []"
  with assms have w: "w = tidy_window (strip_dates (normalize_text v))"
    by (auto simp: parse_visit_date_and_window_def Let_def split: if_splits)
  let ?raw = "normalize_text v"
  let ?w1 = "sub_first rx_ymd ?raw"
  let ?w2 = "sub_first rx_dmy ?w1"
  let ?w3 = "sub_first rx_cn_ymd ?w2"
  have "cut rx_ymd ?raw ?w1" "cut rx_dmy ?w1 ?w2" "cut rx_cn_ymd ?w2 ?w3"
    "cut rx_cn_md ?w3 (strip_dates ?raw)"
    by (simp_all add: sub_first_cut strip_dates_def)
  with w show "\<exists>w1 w2 w3 w4. cut rx_ymd (normalize_text v) w1 \<and> cut rx_dmy w1 w2
               \<and> cut rx_cn_ymd w2 w3 \<and> cut rx_cn_md w3 w4
               \<and> w4 = strip_dates (normalize_text v) \<and> w = tidy_window w4"
    by blast
next
  assume "date = []"
  with assms show "w = normalize_text v"
    by (auto simp: parse_visit_date_and_window_def Let_def split: if_splits)
qed

theorem visit_window_cuts_witness:
  "\<exists>w1 w2 w3 w4. cut rx_ymd visit_sample w1 \<and> cut rx_dmy w1 w2
      \<and> cut rx_cn_ymd w2 w3 \<and> cut rx_cn_md w3 w4 \<and> [] = tidy_window w4"
proof -
  have p: "parse_visit_date_and_window None None visit_sample = (ascii ''2023-02-01'', [])"
    by (simp add: parse_visit_date_and_window_def visit_sample_def tidy_window_def strip_dates_def
      eval_date is_lead_punct_def)
  have n: "normalize_text visit_sample = visit_sample"
    by (simp add: visit_sample_def eval_text glyph_month_def)
  have "ascii ''2023-02-01'' \<noteq> []" by (simp add: ascii_def)
  with visit_window_cuts[OF p] show ?thesis unfolding n by blast
qed

section \<open>Properties of the influencer merge\<close>

lemma parse_tiktok_handle_shape:
  "parse_tiktok_handle u = [] \<or> (\<exists>t. parse_tiktok_handle u = 64 # t)"
  by (auto simp: parse_tiktok_handle_def Let_def split: option.splits)

lemma strip_eq_Nil_iff: "strip s = [] \<longleftrightarrow> (\<forall>x \<in> set s. is_space x)"
proof
  assume "strip s = []"
  then have a: "\<forall>x \<in> set (dropWhile is_space s). is_space x"
    by (simp add: strip_def dropWhile_eq_Nil_conv)
  have "dropWhile is_space s = []"
  proof (rule ccontr)
    assume ne: "dropWhile is_space s \<noteq> []"
    then have "\<not> is_space (hd (dropWhile is_space s))" by (rule hd_dropWhile)
    with a ne show False by (meson hd_in_set)
  qed
  then show "\<forall>x \<in> set s. is_space x" by (simp add: dropWhile_eq_Nil_conv)
next
  assume "\<forall>x \<in> set s. is_space x"
  then show "strip s = []" by (auto simp: strip_def dest: set_dropWhileD)
qed

lemma strip_nonempty_last:
  assumes "s \<noteq> []" "\<not> is_space (last s)"
  shows "strip s \<noteq> []"
  using assms by (auto simp: strip_eq_Nil_iff)

lemma handle_display_name:
  assumes "parse_tiktok_handle u \<noteq> []"
  shows "dropWhile (\<lambda>c. c = 64) (parse_tiktok_handle u) \<noteq> []"
    and "strip (dropWhile (\<lambda>c. c = 64) (parse_tiktok_handle u)) \<noteq> []"
    and "strip (parse_tiktok_handle u) \<noteq> []"
proof -
  from assms obtain pre g post where
    s: "search rx_tiktok (normalize_text u) = Some (pre, g, post)"
    and h: "dropWhile (\<lambda>c. c = 64) (strip (g ! 0)) \<noteq> []"
      "parse_tiktok_handle u = 64 # dropWhile (\<lambda>c. c = 64) (strip (g ! 0))"
    by (auto simp: parse_tiktok_handle_def Let_def split: option.splits if_splits)
  let ?h = "dropWhile (\<lambda>c. c = 64) (strip (g ! 0))"
  have d: "dropWhile (\<lambda>c. c = 64) (parse_tiktok_handle u) = ?h"
    unfolding h(2) by (simp add: dropWhile_idem)
  from h(1) have ne: "strip (g ! 0) \<noteq> []" by auto
  have "last ?h = last (strip (g ! 0))"
    using h(1) by (metis last_appendR takeWhile_dropWhile_id)
  with strip_ends[OF ne] have l: "\<not> is_space (last ?h)" by simp
  show "dropWhile (\<lambda>c. c = 64) (parse_tiktok_handle u) \<noteq> []" using d h(1) by simp
  show "strip (dropWhile (\<lambda>c. c = 64) (parse_tiktok_handle u)) \<noteq> []"
    unfolding d using h(1) l by (rule strip_nonempty_last)
  show "strip (parse_tiktok_handle u) \<noteq> []"
    unfolding h(2) by (simp add: strip_eq_Nil_iff is_space_brackets)
qed

lemma normalize_contact_method_solid:
  assumes "normalize_contact_method raw \<noteq> []"
  shows "strip (normalize_contact_method raw) \<noteq> []"
proof -
  have words: "strip w \<noteq> []"
    if "w \<in> set [ascii ''zalo'', ascii ''tiktok'', ascii ''ig'', ascii ''instagram'',
                    ascii ''fb'', ascii ''facebook'']" for w
    using that by (auto simp: strip_eq_Nil_iff ascii_def is_space_low)
  have ig: "strip (ascii ''ig'') \<noteq> []"
    by (rule words) simp
  show ?thesis
  proof (cases "lower (strip raw) \<in> set [ascii ''zalo'', ascii ''tiktok'', ascii ''ig'',
                    ascii ''instagram'', ascii ''fb'', ascii ''facebook'']")
    case True
    with assms words[OF True] ig show ?thesis
      by (simp add: normalize_contact_method_def Let_def normalize_text_def split: if_splits)
  next
    case False
    with assms show ?thesis
      by (simp add: normalize_contact_method_def Let_def normalize_text_def strip_strip
          split: if_splits)
  qed
qed

lemma find_by_handle_SomeD:
  assumes "find_influencer_by_handle conn h = Some ex"
  shows "h \<noteq> []" "ex \<in> set (influencers conn)" "i_handle ex = Some h"
  using assms by (auto simp: find_influencer_by_handle_def find_Some_iff split: if_splits)

lemma set_col_patch: "set_col (patch_if_empty old cand) old = fill_blank old cand"
  by (simp add: set_col_def patch_if_empty_def fill_blank_def)

lemma set_col_None: "set_col None old = old"
  by (simp add: set_col_def)

lemma fill_blank_kept_or_filled:
  "cand \<noteq> [] \<longrightarrow> strip cand \<noteq> [] \<Longrightarrow> kept_or_filled old (fill_blank old cand)"
  by (auto simp: kept_or_filled_def fill_blank_def normalize_col_def or_empty_def)

text \<open>
  C2 (amended): when the row's handle resolves to an existing influencer,
  \<open>create_or_patch_influencer\<close> creates nothing.  Under the primary-key constraint the
  store afterwards is the store before with the resolved row replaced by the returned row,
  and the returned row is the resolved row in which each of display name, contact method,
  contact info, profile link and notes keeps its value unless it is blank (\<open>NULL\<close>,
  empty or white space only) and the candidate is not empty, in which case it holds the
  candidate: the handle without its leading \<open>@\<close> for the display name, the normalized
  contact text for the contact method, or for the contact info when it is shaped like a phone
  number, and the trimmed profile URL and notes.  The handle and the id are never written.
  So notes that are not blank stay as they are.  The call is reported as a patch exactly when
  one of the six columns changed, and then the update time is set; otherwise the store is
  returned unchanged and the call is reported as unchanged.
\<close>

theorem influencer_merge_never_clobbers:
  assumes pk: "distinct (map i_id (influencers conn))"
    and found: "find_influencer_by_handle conn (parse_tiktok_handle url) = Some ex"
  shows "\<exists>row patched.
      create_or_patch_influencer tok now conn (parse_tiktok_handle url) contact_raw url notes_raw
        = Inr (conn\<lparr>influencers := map (\<lambda>r. if r = ex then row else r) (influencers conn)\<rparr>,
               Some row, patched, False)
    \<and> row = ex\<lparr>i_displayName :=
                  fill_blank (i_displayName ex) (dropWhile (\<lambda>c. c = 64) (parse_tiktok_handle url)),
                i_contactMethod :=
                  fill_blank (i_contactMethod ex)
                    (if phone_shaped (normalize_contact_method contact_raw) then []
                     else normalize_contact_method contact_raw),
                i_contactInfo :=
                  fill_blank (i_contactInfo ex)
                    (if phone_shaped (normalize_contact_method contact_raw)
                     then normalize_contact_method contact_raw else []),
                i_profileLink := fill_blank (i_profileLink ex) (normalize_text url),
                i_notes := fill_blank (i_notes ex) (normalize_text notes_raw),
                i_updatedAt := (if patched then Some now else i_updatedAt ex)\<rparr>
    \<and> (patched \<longleftrightarrow> \<not> same_profile ex row)
    \<and> (\<not> patched \<longrightarrow>
          create_or_patch_influencer tok now conn (parse_tiktok_handle url) contact_raw url notes_raw
            = Inr (conn, Some ex, False, False))
    \<and> (normalize_col (i_notes ex) \<noteq> [] \<longrightarrow> i_notes row = i_notes ex)
    \<and> kept_or_filled (i_displayName ex) (i_displayName row)
    \<and> kept_or_filled (i_contactMethod ex) (i_contactMethod row)
    \<and> kept_or_filled (i_contactInfo ex) (i_contactInfo row)
    \<and> kept_or_filled (i_profileLink ex) (i_profileLink row)
    \<and> kept_or_filled (i_notes ex) (i_notes row)
    \<and> i_handle row = i_handle ex \<and> i_id row = i_id ex"
proof -
  let ?h = "parse_tiktok_handle url"
  let ?dn = "dropWhile (\<lambda>c. c = 64) ?h"
  let ?pl = "normalize_text url"
  let ?nt = "normalize_text notes_raw"
  let ?nc = "normalize_contact_method contact_raw"
  let ?ph = "?nc \<noteq> [] \<and> phone_shaped ?nc"
  let ?ci = "if ?ph then ?nc else []"
  let ?cm = "if ?ph then [] else ?nc"
  let ?ci' = "if phone_shaped ?nc then ?nc else []"
  let ?cm' = "if phone_shaped ?nc then [] else ?nc"
  let ?u = "\<lparr>iu_displayName = patch_if_empty (i_displayName ex) ?dn,
             iu_handle = patch_if_empty (i_handle ex) ?h,
             iu_contactMethod = patch_if_empty (i_contactMethod ex) ?cm,
             iu_contactInfo = patch_if_empty (i_contactInfo ex) ?ci,
             iu_profileLink = patch_if_empty (i_profileLink ex) ?pl,
             iu_notes = patch_if_empty (i_notes ex) ?nt\<rparr>"
  let ?ex' = "apply_influencer_updates ?u now ex"
  let ?row = "\<lambda>patched. ex\<lparr>i_displayName := fill_blank (i_displayName ex) ?dn,
                i_contactMethod := fill_blank (i_contactMethod ex) ?cm',
                i_contactInfo := fill_blank (i_contactInfo ex) ?ci',
                i_profileLink := fill_blank (i_profileLink ex) ?pl,
                i_notes := fill_blank (i_notes ex) ?nt,
                i_updatedAt := (if patched then Some now else i_updatedAt ex)\<rparr>"
  note f = find_by_handle_SomeD[OF found]
  have "phone_shaped ?nc \<Longrightarrow> ?nc \<noteq> []"
    by (auto simp: phone_shaped_def)
  then have cands: "?cm = ?cm'" "?ci = ?ci'"
    by auto
  have solid: "?dn \<noteq> [] \<longrightarrow> strip ?dn \<noteq> []" "?cm' \<noteq> [] \<longrightarrow> strip ?cm' \<noteq> []"
    "?ci' \<noteq> [] \<longrightarrow> strip ?ci' \<noteq> []" "?pl \<noteq> [] \<longrightarrow> strip ?pl \<noteq> []"
    "?nt \<noteq> [] \<longrightarrow> strip ?nt \<noteq> []"
    using handle_display_name(2)[OF f(1)] normalize_contact_method_solid[of contact_raw]
    by (simp_all add: normalize_text_def strip_strip)
  have hnone: "patch_if_empty (i_handle ex) ?h = None"
    using handle_display_name(3)[OF f(1)] f(3)
    by (simp add: patch_if_empty_def normalize_col_def or_empty_def)
  have ex': "?ex' = ?row True"
    by (simp add: apply_influencer_updates_def set_col_patch hnone set_col_None cands)
  have kf: "kept_or_filled (i_displayName ex) (i_displayName (?row p))"
    "kept_or_filled (i_contactMethod ex) (i_contactMethod (?row p))"
    "kept_or_filled (i_contactInfo ex) (i_contactInfo (?row p))"
    "kept_or_filled (i_profileLink ex) (i_profileLink (?row p))"
    "kept_or_filled (i_notes ex) (i_notes (?row p))" for p
    using fill_blank_kept_or_filled[OF solid(1)] fill_blank_kept_or_filled[OF solid(2)]
      fill_blank_kept_or_filled[OF solid(3)] fill_blank_kept_or_filled[OF solid(4)]
      fill_blank_kept_or_filled[OF solid(5)]
    by simp_all
  have notes_kept: "normalize_col (i_notes ex) \<noteq> [] \<longrightarrow> i_notes (?row p) = i_notes ex" for p
    by (simp add: fill_blank_def)
  have only_ex: "r = ex" if "r \<in> set (influencers conn)" "i_id r = i_id ex" for r
    using distinct_map_eq[OF pk that(1) f(2) that(2)] .
  have changes: "fill_blank old cand \<noteq> old" if "patch_if_empty old cand \<noteq> None"
    "cand \<noteq> [] \<longrightarrow> strip cand \<noteq> []" for old cand
    using that by (auto simp: fill_blank_def patch_if_empty_def normalize_col_def or_empty_def
        split: if_splits)
  have keeps: "fill_blank old cand = old" if "patch_if_empty old cand = None" for old cand
    using that by (auto simp: fill_blank_def patch_if_empty_def split: if_splits)
  show ?thesis
  proof (cases "influencer_updates_empty ?u")
    case True
    then have r: "create_or_patch_influencer tok now conn ?h contact_raw url notes_raw
        = Inr (conn, Some ex, False, False)"
      using found f(1) by (simp add: create_or_patch_influencer_def Let_def split del: if_split)
    from True have row: "?row False = ex"
      unfolding cands[symmetric]
      by (simp add: influencer_updates_empty_def keeps)
    have m: "conn\<lparr>influencers := map (\<lambda>r. if r = ex then ?row False else r) (influencers conn)\<rparr>
        = conn"
      unfolding row by (simp add: map_idI)
    have sp: "same_profile ex ex" by (simp add: same_profile_def)
    show ?thesis
      apply (rule exI[of _ "?row False"], rule exI[of _ False])
      using kf[of False] notes_kept[of False]
      apply (simp only: m r row)
      apply (simp add: sp)
      done
  next
    case False
    let ?upd = "\<lambda>r. if i_id r = i_id ex then apply_influencer_updates ?u now r else r"
    let ?conn' = "conn\<lparr>influencers := map ?upd (influencers conn)\<rparr>"
    have "\<exists>r. find (\<lambda>b. i_id b = i_id ex) (map ?upd (influencers conn)) = Some r
             \<and> i_id r = i_id ex \<and> r = ?ex'"
      by (rule find_map_id[OF f(2)]) (auto simp: apply_influencer_updates_def dest: only_ex)
    then have fnd: "find (\<lambda>b. i_id b = i_id ex) (influencers ?conn') = Some ?ex'"
      by auto
    have r: "create_or_patch_influencer tok now conn ?h contact_raw url notes_raw
        = Inr (?conn', Some ?ex', True, False)"
      using found False fnd f(1)
      by (simp add: create_or_patch_influencer_def Let_def split del: if_split)
    have "map ?upd (influencers conn) = map (\<lambda>r. if r = ex then ?ex' else r) (influencers conn)"
      by (rule map_cong) (auto dest: only_ex)
    then have c: "?conn' = conn\<lparr>influencers := map (\<lambda>r. if r = ex then ?row True else r)
                                   (influencers conn)\<rparr>"
      unfolding ex' by simp
    have changed: "\<not> same_profile ex (?row True)"
    proof -
      from False hnone consider "patch_if_empty (i_displayName ex) ?dn \<noteq> None"
        | "patch_if_empty (i_contactMethod ex) ?cm' \<noteq> None"
        | "patch_if_empty (i_contactInfo ex) ?ci' \<noteq> None"
        | "patch_if_empty (i_profileLink ex) ?pl \<noteq> None"
        | "patch_if_empty (i_notes ex) ?nt \<noteq> None"
        unfolding cands[symmetric] by (auto simp: influencer_updates_empty_def)
      then show ?thesis
      proof cases
        case 1
        from changes[OF 1 solid(1)] show ?thesis by (simp add: same_profile_def)
      next
        case 2
        from changes[OF 2 solid(2)] show ?thesis by (simp add: same_profile_def)
      next
        case 3
        from changes[OF 3 solid(3)] show ?thesis by (simp add: same_profile_def)
      next
        case 4
        from changes[OF 4 solid(4)] show ?thesis by (simp add: same_profile_def)
      next
        case 5
        from changes[OF 5 solid(5)] show ?thesis by (simp add: same_profile_def)
      qed
    qed
    show ?thesis
      apply (rule exI[of _ "?row True"], rule exI[of _ True])
      using kf[of True] notes_kept[of True] changed
      apply (simp only: r c ex')
      apply simp
      done
  qed
qed

lemma sample_handle: "parse_tiktok_handle sample_url = ascii ''@alice''"
  by (simp add: parse_tiktok_handle_def sample_url_def rx_tiktok_def rx_eval Let_def eval_text)

theorem influencer_merge_never_clobbers_witness:
  "create_or_patch_influencer sample_tok sample_now sample_db (parse_tiktok_handle sample_url)
        (ascii ''Zalo'') sample_url (ascii ''other notes'')
     = Inr (\<lparr>influencers = [sample_influencer\<lparr>i_contactMethod := Some (ascii ''zalo''),
                                                  i_profileLink := Some sample_url,
                                                  i_updatedAt := Some sample_now\<rparr>],
             bookings = [sample_booking], traffic_logs = [sample_traffic]\<rparr>,
            Some (sample_influencer\<lparr>i_contactMethod := Some (ascii ''zalo''),
                                     i_profileLink := Some sample_url,
                                     i_updatedAt := Some sample_now\<rparr>), True, False)
   \<and> i_notes sample_influencer = Some (ascii ''likes hotpot'')"
proof -
  have pk: "distinct (map i_id (influencers sample_db))"
    by (simp add: sample_db_def)
  have found: "find_influencer_by_handle sample_db (parse_tiktok_handle sample_url)
      = Some sample_influencer"
    by (simp add: sample_handle find_influencer_by_handle_def sample_db_def
        sample_influencer_def ascii_def)
  have c: "normalize_contact_method (ascii ''Zalo'') = ascii ''zalo''"
    "phone_shaped (ascii ''zalo'') = False"
    by (simp_all add: normalize_contact_method_def Let_def lower_def lower_cp_def phone_shaped_def
        eval_text)
  have fb: "fill_blank (i_displayName sample_influencer)
              (dropWhile (\<lambda>c. c = 64) (parse_tiktok_handle sample_url)) = Some (ascii ''alice'')"
    "fill_blank (i_contactMethod sample_influencer) (ascii ''zalo'') = Some (ascii ''zalo'')"
    "fill_blank (i_contactInfo sample_influencer) [] = Some []"
    "fill_blank (i_profileLink sample_influencer) (normalize_text sample_url) = Some sample_url"
    "fill_blank (i_notes sample_influencer) (normalize_text (ascii ''other notes''))
       = Some (ascii ''likes hotpot'')"
    by (simp_all add: fill_blank_def sample_handle sample_influencer_def sample_url_def eval_text)
  have cols: "i_displayName sample_influencer = Some (ascii ''alice'')"
    "i_contactInfo sample_influencer = Some []"
    "i_notes sample_influencer = Some (ascii ''likes hotpot'')"
    "i_contactMethod sample_influencer = Some []"
    by (simp_all add: sample_influencer_def)
  have z: "ascii ''zalo'' \<noteq> []" by (simp add: ascii_def)
  from influencer_merge_never_clobbers[OF pk found, of sample_tok sample_now "ascii ''Zalo''"
      "ascii ''other notes''"]
  obtain row patched where
    r: "create_or_patch_influencer sample_tok sample_now sample_db (parse_tiktok_handle sample_url)
        (ascii ''Zalo'') sample_url (ascii ''other notes'')
        = Inr (sample_db\<lparr>influencers := map (\<lambda>r. if r = sample_influencer then row else r)
                                             (influencers sample_db)\<rparr>, Some row, patched, False)"
    and row: "row = sample_influencer\<lparr>i_displayName := Some (ascii ''alice''),
                i_contactMethod := Some (ascii ''zalo''),
                i_contactInfo := Some [],
                i_profileLink := Some sample_url,
                i_notes := Some (ascii ''likes hotpot''),
                i_updatedAt := (if patched then Some sample_now else i_updatedAt sample_influencer)\<rparr>"
    and p: "patched \<longleftrightarrow> \<not> same_profile sample_influencer row"
    unfolding c fb if_False by blast
  have row': "row = sample_influencer\<lparr>i_contactMethod := Some (ascii ''zalo''),
                i_profileLink := Some sample_url,
                i_updatedAt := (if patched then Some sample_now else i_updatedAt sample_influencer)\<rparr>"
    unfolding row by (simp add: sample_influencer_def)
  have "\<not> same_profile sample_influencer row"
    unfolding row' using z by (simp add: same_profile_def cols)
  with p have patched by simp
  with r row' cols(3) show ?thesis
    by (simp add: sample_db_def)
qed

text \<open>
  C2 (as stated, refuted): notes that hold one space are not empty, yet a row carrying other
  notes overwrites them: the merge tests the column after trimming.
\<close>

theorem influencer_merge_blank_notes_counterexample:
  "find_influencer_by_handle spaced_db (parse_tiktok_handle sample_url) = Some spaced_influencer
   \<and> i_notes spaced_influencer = Some (ascii '' '') \<and> ascii '' '' \<noteq> []
   \<and> create_or_patch_influencer sample_tok sample_now spaced_db (parse_tiktok_handle sample_url)
         [] sample_url (ascii ''other notes'')
       = Inr (\<lparr>influencers = [spaced_influencer\<lparr>i_notes := Some (ascii ''other notes''),
                                                     i_updatedAt := Some sample_now\<rparr>],
               bookings = [], traffic_logs = []\<rparr>,
              Some (spaced_influencer\<lparr>i_notes := Some (ascii ''other notes''),
                                       i_updatedAt := Some sample_now\<rparr>), True, False)"
proof -
  have f: "find_influencer_by_handle spaced_db (ascii ''@alice'') = Some spaced_influencer"
    by (simp add: find_influencer_by_handle_def spaced_db_def spaced_influencer_def
        sample_influencer_def ascii_def)
  have n: "i_notes spaced_influencer = Some (ascii '' '')" "ascii '' '' \<noteq> []"
    by (simp_all add: spaced_influencer_def ascii_def)
  have u: "normalize_text sample_url = sample_url"
    "normalize_text (ascii ''other notes'') = ascii ''other notes''"
    "normalize_contact_method [] = []"
    by (simp_all add: sample_url_def normalize_contact_method_def Let_def eval_text)
  have p: "patch_if_empty (i_displayName spaced_influencer) (dropWhile (\<lambda>c. c = 64) (ascii ''@alice'')) = None"
    "patch_if_empty (i_handle spaced_influencer) (ascii ''@alice'') = None"
    "patch_if_empty (i_contactMethod spaced_influencer) [] = None"
    "patch_if_empty (i_contactInfo spaced_influencer) [] = None"
    "patch_if_empty (i_profileLink spaced_influencer) sample_url = None"
    "patch_if_empty (i_notes spaced_influencer) (ascii ''other notes'') = Some (ascii ''other notes'')"
    by (simp_all add: patch_if_empty_def spaced_influencer_def sample_influencer_def sample_url_def
        eval_text)
  have ne: "ascii ''@alice'' \<noteq> []" by (simp add: ascii_def)
  have r: "create_or_patch_influencer sample_tok sample_now spaced_db (ascii ''@alice'')
         [] sample_url (ascii ''other notes'')
       = Inr (\<lparr>influencers = [spaced_influencer\<lparr>i_notes := Some (ascii ''other notes''),
                                                     i_updatedAt := Some sample_now\<rparr>],
               bookings = [], traffic_logs = []\<rparr>,
              Some (spaced_influencer\<lparr>i_notes := Some (ascii ''other notes''),
                                       i_updatedAt := Some sample_now\<rparr>), True, False)"
    using ne
    by (simp add: create_or_patch_influencer_def Let_def f u p influencer_updates_empty_def
        apply_influencer_updates_def set_col_def split del: if_split)
      (simp add: spaced_db_def p apply_influencer_updates_def set_col_def)
  show ?thesis
    unfolding sample_handle using f n r by simp
qed

section \<open>Properties of the booking resolution\<close>

lemma like_percent_skip: "like_match ps s \<Longrightarrow> like_match (37 # ps) s"
  by (cases s) simp_all

lemma like_percent_any: "like_match ps s \<Longrightarrow> like_match (37 # ps) (a @ s)"
  by (induction a) (simp_all add: like_percent_skip)

lemma like_percent_all: "like_match [37] s"
  by (induction s) simp_all

lemma like_literal: "like_match ps s \<Longrightarrow> like_match (t @ ps) (t @ s)"
proof (induction t)
  case Nil
  then show ?case by simp
next
  case (Cons c t)
  then have "like_match (t @ ps) (t @ s)" by simp
  then show ?case by (cases "c = 37") (simp_all add: like_percent_skip)
qed

lemma like_contains:
  assumes "sublist t s"
  shows "like_match (ascii ''%'' @ t @ ascii ''%'') s"
proof -
  from assms obtain a b where s: "s = a @ t @ b" by (auto simp: sublist_def)
  have "like_match (t @ [37]) (t @ b)"
    by (rule like_literal) (rule like_percent_all)
  then have "like_match (37 # t @ [37]) (a @ t @ b)"
    by (rule like_percent_any)
  then show ?thesis by (simp add: s ascii_def)
qed

text \<open>
  What \<open>find_booking\<close> computes, case by case: with an external key, the first booking, in
  table order, whose video link is the placeholder \<open>import:key\<close> or whose notes match the
  SQL pattern \<open>%[import:key]%\<close>; failing that, with a non-empty video link, the first
  booking with exactly that link; failing both, the first booking that agrees with the
  fallback tuple, provided handle, store id and source type are all non-empty, and nothing
  otherwise.  The last case does not ask whether a video link was given.
\<close>

lemma find_booking_cases:
  "(normalize_text external_key \<noteq> []
      \<and> (\<exists>b \<in> set (bookings conn).
            b_videoLink b = Some (ascii ''import:'' @ normalize_text external_key)
            \<or> sql_like (b_notes b)
                 (ascii ''%[import:'' @ normalize_text external_key @ ascii '']%'')) \<longrightarrow>
     find_booking conn video_link handle post_date store_id source_type external_key
       = find (\<lambda>b. b_videoLink b = Some (ascii ''import:'' @ normalize_text external_key)
                   \<or> sql_like (b_notes b)
                        (ascii ''%[import:'' @ normalize_text external_key @ ascii '']%''))
           (bookings conn))
   \<and> (\<not> (normalize_text external_key \<noteq> []
          \<and> (\<exists>b \<in> set (bookings conn).
                b_videoLink b = Some (ascii ''import:'' @ normalize_text external_key)
                \<or> sql_like (b_notes b)
                     (ascii ''%[import:'' @ normalize_text external_key @ ascii '']%'')))
       \<and> normalize_text video_link \<noteq> []
       \<and> (\<exists>b \<in> set (bookings conn). b_videoLink b = Some (normalize_text video_link)) \<longrightarrow>
     find_booking conn video_link handle post_date store_id source_type external_key
       = find (\<lambda>b. b_videoLink b = Some (normalize_text video_link)) (bookings conn))
   \<and> (\<not> (normalize_text external_key \<noteq> []
          \<and> (\<exists>b \<in> set (bookings conn).
                b_videoLink b = Some (ascii ''import:'' @ normalize_text external_key)
                \<or> sql_like (b_notes b)
                     (ascii ''%[import:'' @ normalize_text external_key @ ascii '']%'')))
       \<and> \<not> (normalize_text video_link \<noteq> []
          \<and> (\<exists>b \<in> set (bookings conn). b_videoLink b = Some (normalize_text video_link))) \<longrightarrow>
     find_booking conn video_link handle post_date store_id source_type external_key
       = (if normalize_text handle \<noteq> [] \<and> normalize_text store_id \<noteq> []
             \<and> normalize_text source_type \<noteq> []
          then find (\<lambda>b. b_handle b = Some (normalize_text handle)
                        \<and> b_postDate b = Some (normalize_text post_date)
                        \<and> b_storeId b = Some (normalize_text store_id)
                        \<and> b_sourceType b = Some (normalize_text source_type)) (bookings conn)
          else None))"
proof -
  let ?ext = "normalize_text external_key"
  let ?link = "normalize_text video_link"
  let ?K = "\<lambda>b. b_videoLink b = Some (ascii ''import:'' @ ?ext)
                   \<or> sql_like (b_notes b) (ascii ''%[import:'' @ ?ext @ ascii '']%'')"
  have key: "find_by_external_key conn ?ext = find ?K (bookings conn)" if "?ext \<noteq> []"
    using that
    by (simp add: find_by_external_key_def build_import_tag_def Let_def normalize_text_def
        strip_strip ascii_def)
  have link: "find_booking_by_video_link conn ?link
      = find (\<lambda>b. b_videoLink b = Some ?link) (bookings conn)" if "?link \<noteq> []"
    using that by (simp add: find_booking_by_video_link_def Let_def normalize_text_def strip_strip)
  have some: "find P xs \<noteq> None" if "\<exists>b \<in> set xs. P b" for P and xs :: "booking list"
    using that by (auto simp: find_None_iff)
  have none: "find P xs = None" if "\<not> (\<exists>b \<in> set xs. P b)" for P and xs :: "booking list"
    using that by (auto simp: find_None_iff)
  show ?thesis
  proof (intro conjI impI)
    assume a: "?ext \<noteq> [] \<and> (\<exists>b \<in> set (bookings conn). ?K b)"
    then have "find ?K (bookings conn) \<noteq> None" by (intro some) simp
    with a show "find_booking conn video_link handle post_date store_id source_type external_key
       = find ?K (bookings conn)"
      by (auto simp: find_booking_def Let_def key)
  next
    assume a: "\<not> (?ext \<noteq> [] \<and> (\<exists>b \<in> set (bookings conn). ?K b))
       \<and> ?link \<noteq> []
       \<and> (\<exists>b \<in> set (bookings conn). b_videoLink b = Some ?link)"
    then have k: "(if ?ext \<noteq> [] then find_by_external_key conn ?ext else None) = None"
      using none[of "bookings conn" ?K] by (auto simp: key)
    from a have "find (\<lambda>b. b_videoLink b = Some ?link) (bookings conn) \<noteq> None"
      by (intro some) simp
    with a k show "find_booking conn video_link handle post_date store_id source_type external_key
       = find (\<lambda>b. b_videoLink b = Some ?link) (bookings conn)"
      by (auto simp: find_booking_def Let_def link)
  next
    assume a: "\<not> (?ext \<noteq> [] \<and> (\<exists>b \<in> set (bookings conn). ?K b))
       \<and> \<not> (?link \<noteq> [] \<and> (\<exists>b \<in> set (bookings conn). b_videoLink b = Some ?link))"
    then have k: "(if ?ext \<noteq> [] then find_by_external_key conn ?ext else None) = None"
      using none[of "bookings conn" ?K] by (auto simp: key)
    from a have l: "(if ?link \<noteq> [] then find_booking_by_video_link conn ?link else None) = None"
      using none[of "bookings conn" "\<lambda>b. b_videoLink b = Some ?link"] by (auto simp: link)
    from k l show "find_booking conn video_link handle post_date store_id source_type external_key
       = (if normalize_text handle \<noteq> [] \<and> normalize_text store_id \<noteq> []
             \<and> normalize_text source_type \<noteq> []
          then find (\<lambda>b. b_handle b = Some (normalize_text handle)
                        \<and> b_postDate b = Some (normalize_text post_date)
                        \<and> b_storeId b = Some (normalize_text store_id)
                        \<and> b_sourceType b = Some (normalize_text source_type)) (bookings conn)
          else None)"
      by (simp add: find_booking_def Let_def find_by_fallback_def)
  qed
qed

text \<open>
  C3: the code departs from the claim.  A lookup without external key and with the video link
  \<open>https://v.example/2\<close>, which no booking has, resolves the sample booking, whose video
  link is \<open>import:walkin:0:1\<close>, through the fallback tuple: the fallback is not kept for
  lookups without video link, as the claim and the comment above the fallback have it.  The
  resolution as specified finds no booking for this lookup.
\<close>

theorem find_booking_fallback_despite_link:
  "b_videoLink sample_booking = Some (ascii ''import:walkin:0:1'')
   \<and> find_booking sample_db (ascii ''https://v.example/2'') (ascii ''@alice'')
        (ascii ''2023-12-21'') (ascii ''store-mlzg'') src_walkin [] = Some sample_booking
   \<and> spec_find_booking sample_db (ascii ''https://v.example/2'') (ascii ''@alice'')
        (ascii ''2023-12-21'') (ascii ''store-mlzg'') src_walkin [] = None"
  by (simp add: find_booking_def spec_find_booking_def find_by_fallback_def
      find_booking_by_video_link_def Let_def sample_defs eval_text)

text \<open>
  A second departure: the notes are compared with SQL \<open>LIKE\<close>, where \<open>_\<close> stands for any
  character, although the tag is appended after an exact substring test.  The lookup with
  external key \<open>walkin:1_:7\<close>, no video link and no handle finds the booking whose notes
  read \<open>[import:walkin:1X:7]\<close>; these notes do not contain the tag \<open>[import:walkin:1_:7]\<close>,
  so the resolution as specified finds nothing.
\<close>

lemma find_booking_like_wildcard:
  "find_booking tagged_db [] [] [] [] [] (ascii ''walkin:1_:7'') = Some tagged_booking
   \<and> spec_find_booking tagged_db [] [] [] [] [] (ascii ''walkin:1_:7'') = None"
  by (simp add: find_booking_def spec_find_booking_def find_by_external_key_def
      find_by_fallback_def find_booking_by_video_link_def build_import_tag_def sql_like_def
      upto_nul_def fold_ascii_def Let_def tagged_db_def tagged_booking_def sample_booking_def
      eval_text sublist_code)

end
